theory Spec2Isabelle
  imports Main
begin

section \<open>JavaScript values and string primitives\<close>

text \<open>
  The controller reads loosely typed configuration (\<open>delay\<close>, \<open>triggers\<close>, \<open>target\<close>).
  \<open>jsval\<close> covers the values those properties can hold. Numbers are the integer-valued
  ones; strings are lists of 8-bit characters; \<open>JElem e\<close> is the DOM element with
  identity \<open>e\<close>; \<open>JObj\<close> is any other object, given by its properties (a component
  reference is an object with a \<open>$el\<close> property).
\<close>

datatype jsval =
    JUndefined
  | JNull
  | JBool bool
  | JNum int
  | JStr string
  | JElem nat
  | JObj "(string \<times> jsval) list"

text \<open>\<open>Boolean(v)\<close>: the truthiness of a value.\<close>

fun truthy :: "jsval \<Rightarrow> bool" where
  "truthy JUndefined = False"
| "truthy JNull = False"
| "truthy (JBool b) = b"
| "truthy (JNum n) = (n \<noteq> 0)"
| "truthy (JStr s) = (s \<noteq> [])"
| "truthy (JElem e) = True"
| "truthy (JObj fs) = True"

text \<open>Modelled from the spec: the type tests of \<open>./inspect\<close> (assumed-correct primitives).\<close>

fun isNumber :: "jsval \<Rightarrow> bool" where
  "isNumber (JNum n) = True"
| "isNumber v = False"

fun isString :: "jsval \<Rightarrow> bool" where
  "isString (JStr s) = True"
| "isString v = False"

fun isPlainObject :: "jsval \<Rightarrow> bool" where
  "isPlainObject (JObj fs) = True"
| "isPlainObject v = False"

fun isElement :: "jsval \<Rightarrow> bool" where
  "isElement (JElem e) = True"
| "isElement v = False"

text \<open>Property read \<open>v.name\<close>; a missing property, or a read on a primitive, is \<open>undefined\<close>.\<close>

fun getProp :: "jsval \<Rightarrow> string \<Rightarrow> jsval" where
  "getProp (JObj fs) name = (case map_of fs name of None \<Rightarrow> JUndefined | Some v \<Rightarrow> v)"
| "getProp v name = JUndefined"

text \<open>The character class \<open>\s\<close> (also what \<open>trim\<close> strips) within the 8-bit range.\<close>

definition isSpace :: "char \<Rightarrow> bool" where
  "isSpace c = (let n = (of_char c :: nat) in (9 \<le> n \<and> n \<le> 13) \<or> n = 32 \<or> n = 160)"

definition isDigit :: "char \<Rightarrow> bool" where
  "isDigit c = (let n = (of_char c :: nat) in 48 \<le> n \<and> n \<le> 57)"

definition digitVal :: "char \<Rightarrow> int" where
  "digitVal c = int (of_char c) - 48"

text \<open>\<open>String.prototype.toLowerCase\<close> on one character (ASCII and Latin-1 capitals).\<close>

definition toLowerChar :: "char \<Rightarrow> char" where
  "toLowerChar c =
     (let n = (of_char c :: nat)
      in if (65 \<le> n \<and> n \<le> 90) \<or> (192 \<le> n \<and> n \<le> 222 \<and> n \<noteq> 215)
         then char_of (n + 32) else c)"

definition toLowerCase :: "string \<Rightarrow> string" where
  "toLowerCase s = map toLowerChar s"

text \<open>\<open>String.prototype.trim\<close>.\<close>

definition trim :: "string \<Rightarrow> string" where
  "trim s = rev (dropWhile isSpace (rev (dropWhile isSpace s)))"

text \<open>\<open>Array.prototype.join(' ')\<close> on an array of strings.\<close>

fun joinSp :: "string list \<Rightarrow> string" where
  "joinSp [] = []"
| "joinSp [x] = x"
| "joinSp (x # y # ys) = x @ CHR '' '' # joinSp (y # ys)"

text \<open>
  \<open>s.split(/\s+/)\<close>: cut at every maximal run of whitespace. The empty string gives one
  empty token; leading or trailing whitespace gives an empty first or last token.
\<close>

fun splitWs :: "string \<Rightarrow> string list" where
  "splitWs [] = [[]]"
| "splitWs (c # cs) =
     (if isSpace c
      then (if cs \<noteq> [] \<and> isSpace (hd cs) then splitWs cs else [] # splitWs cs)
      else (case splitWs cs of
              [] \<Rightarrow> [[c]]
            | t # ts \<Rightarrow> (c # t) # ts))"

text \<open>Decimal digits of a natural number, as \<open>String(n)\<close> prints them.\<close>

fun digitsOf :: "nat \<Rightarrow> nat \<Rightarrow> string" where
  "digitsOf 0 n = []"
| "digitsOf (Suc fuel) n =
     (if n < 10 then [char_of (48 + n)]
      else digitsOf fuel (n div 10) @ [char_of (48 + n mod 10)])"

definition natToString :: "nat \<Rightarrow> string" where
  "natToString n = digitsOf (Suc n) n"

definition intToString :: "int \<Rightarrow> string" where
  "intToString i = (if i < 0 then CHR ''-'' # natToString (nat (- i)) else natToString (nat i))"

text \<open>\<open>String(v)\<close>, as \<open>join\<close> applies it to each array element.\<close>

fun toString :: "jsval \<Rightarrow> string" where
  "toString JUndefined = ''undefined''"
| "toString JNull = ''null''"
| "toString (JBool b) = (if b then ''true'' else ''false'')"
| "toString (JNum n) = intToString n"
| "toString (JStr s) = s"
| "toString (JElem e) = ''[object HTMLElement]''"
| "toString (JObj fs) = ''[object Object]''"

text \<open>
  \<open>parseInt(s, 10)\<close>: skip leading whitespace, read an optional sign, then the longest run
  of decimal digits; \<open>None\<close> stands for \<open>NaN\<close> (no digit found).
\<close>

definition digitsToInt :: "string \<Rightarrow> int" where
  "digitsToInt ds = foldl (\<lambda>a c. 10 * a + digitVal c) 0 ds"

definition parseInt10 :: "string \<Rightarrow> int option" where
  "parseInt10 s =
     (let s1 = dropWhile isSpace s;
          neg = (s1 \<noteq> [] \<and> hd s1 = CHR ''-'');
          s2 = (if s1 \<noteq> [] \<and> (hd s1 = CHR ''-'' \<or> hd s1 = CHR ''+'') then tl s1 else s1);
          ds = takeWhile isDigit s2
      in if ds = [] then None
         else Some (if neg then - digitsToInt ds else digitsToInt ds))"

section \<open>Configuration normalisers\<close>

record delay_cfg =
  delay_show :: int
  delay_hide :: int

text \<open>
  \<open>computedDelay\<close>: a number is taken as it is for both fields; a string is parsed and
  clamped at 0; a plain object gives each field that is a number, else 0; anything else
  leaves both at 0.
\<close>

definition computedDelay :: "jsval \<Rightarrow> delay_cfg" where
  "computedDelay d =
     (if isNumber d then (case d of JNum n \<Rightarrow> \<lparr>delay_show = n, delay_hide = n\<rparr>
                                   | _ \<Rightarrow> \<lparr>delay_show = 0, delay_hide = 0\<rparr>)
      else if isString d then
        (case d of
           JStr s \<Rightarrow>
             (let p = (case parseInt10 s of None \<Rightarrow> 0 | Some n \<Rightarrow> if n = 0 then 0 else n);
                  v = max p 0
              in \<lparr>delay_show = v, delay_hide = v\<rparr>)
         | _ \<Rightarrow> \<lparr>delay_show = 0, delay_hide = 0\<rparr>)
      else if isPlainObject d then
        \<lparr>delay_show = (case getProp d ''show'' of JNum n \<Rightarrow> n | _ \<Rightarrow> 0),
         delay_hide = (case getProp d ''hide'' of JNum n \<Rightarrow> n | _ \<Rightarrow> 0)\<rparr>
      else \<lparr>delay_show = 0, delay_hide = 0\<rparr>)"

text \<open>The raw \<open>triggers\<close> property: one string, or an array of values.\<close>

datatype triggers_cfg = TrigStr string | TrigArr "jsval list"

text \<open>Modelled from the spec: \<open>concat\<close> of \<open>./array\<close>, which wraps a non-array in an array.\<close>

fun concat_arr :: "triggers_cfg \<Rightarrow> jsval list" where
  "concat_arr (TrigStr s) = [JStr s]"
| "concat_arr (TrigArr vs) = vs"

definition triggersJoined :: "triggers_cfg \<Rightarrow> string" where
  "triggersJoined t = toLowerCase (joinSp (map toString (filter truthy (concat_arr t))))"

definition computedTriggers :: "triggers_cfg \<Rightarrow> string list" where
  "computedTriggers t = splitWs (triggersJoined t)"

section \<open>The controller and the world it acts on\<close>

datatype js_error = TypeError string

datatype hover_state = HoverNone | HoverIn | HoverOut

record active_trigger =
  at_hover :: bool
  at_click :: bool
  at_focus :: bool
  at_manual :: bool

text \<open>The two timeout callbacks: the closure scheduled by \<open>enter\<close> and the one by \<open>leave\<close>.\<close>

datatype timer_cb = ShowCb | HideCb

text \<open>
  The template instance held in \<open>$_tip\<close>, as far as the controller observes it: whether it
  has an element (\<open>$el\<close>) and whether its \<open>hide()\<close> has been called.
\<close>

record tip_inst =
  tip_el :: bool
  tip_hiding :: bool

datatype container_ref = ContainerNull | ContainerBody | ContainerElem nat

text \<open>The props the controller reads, with \<open>_uid\<close> and the overridable \<open>templateType\<close>.\<close>

record config =
  triggers :: triggers_cfg
  delay :: jsval
  target :: jsval
  container :: jsval
  boundary :: jsval
  disabled :: bool
  uid :: nat
  templateType :: string

text \<open>
  What the document and the notification listeners answer when the controller asks:
  the DOM queries behind the helpers of \<open>./dom\<close>, whether a listener of the cancelable
  \<open>show\<close> / \<open>hide\<close> notification calls \<open>preventDefault\<close>, and whether a new template
  instance comes with an element.
\<close>

record env =
  getElementById :: "string \<Rightarrow> nat option"
  bodyContains :: "nat \<Rightarrow> bool"
  elVisible :: "nat \<Rightarrow> bool"
  elDisabled :: "nat \<Rightarrow> bool"
  hasDropdownClass :: "nat \<Rightarrow> bool"
  dropdownMenuShown :: "nat \<Rightarrow> bool"
  closestModal :: "nat \<Rightarrow> nat option"
  hasVueInstance :: "nat \<Rightarrow> bool"
  elementId :: "nat \<Rightarrow> string"
  touchSupport :: bool
  showPrevented :: bool
  hidePrevented :: bool
  tipMounts :: bool

text \<open>
  The controller instance together with the timers, listeners and attributes it creates.
  Instance properties are kept apart by the exact property name the source writes:
  \<open>us_hoverTimeout\<close> is \<open>$_hoverTimeout\<close>, \<open>us_hoverTimout\<close> is \<open>$_hoverTimout\<close>,
  \<open>ds_hoverTimeout\<close> is \<open>$hoverTimeout\<close>, \<open>hoverTimeout\<close> is \<open>hoverTimeout\<close>,
  \<open>us_visibleInterval\<close> is \<open>$_visibleInterval\<close> and \<open>visibleInterval\<close> is
  \<open>visibleInterval\<close>. A property holding \<open>null\<close> or never assigned is \<open>None\<close>.
  \<open>timeouts\<close> are the pending \<open>setTimeout\<close> timers (handle, due time, callback),
  \<open>intervals\<close> the running \<open>setInterval\<close> handles (each runs the visibility poll).
\<close>

record ctl =
  localPlacementTarget :: "nat option"
  localContainer :: container_ref
  localBoundary :: jsval
  activeTrigger :: active_trigger
  hoverState :: hover_state
  localShow :: bool
  enabled :: bool
  tip :: "tip_inst option"
  us_hoverTimeout :: "nat option"
  us_hoverTimout :: "nat option"
  ds_hoverTimeout :: "nat option"
  hoverTimeout :: "nat option"
  us_visibleInterval :: "nat option"
  visibleInterval :: "nat option"
  now :: nat
  nextHandle :: nat
  timeouts :: "(nat \<times> nat \<times> timer_cb) list"
  intervals :: "nat list"
  domListeners :: "(nat \<times> string) list"
  rootListeners :: "string list"
  vueListeners :: "nat list"
  touchListeners :: bool
  attrs :: "nat \<Rightarrow> string option"
  emitted :: "string list"
  uncaught :: "js_error list"

subsection \<open>Timers\<close>

text \<open>
  \<open>setTimeout\<close> returns the handle \<open>nextHandle\<close> of the state it is called in; a negative
  delay counts as 0. \<open>clearTimeout\<close> and \<open>clearInterval\<close> of \<open>null\<close> or \<open>undefined\<close> do
  nothing, and both clear either kind of timer.
\<close>

definition setTimeout :: "timer_cb \<Rightarrow> int \<Rightarrow> ctl \<Rightarrow> ctl" where
  "setTimeout cb d s =
     s\<lparr>timeouts := timeouts s @ [(nextHandle s, now s + nat d, cb)],
       nextHandle := Suc (nextHandle s)\<rparr>"

definition setInterval :: "ctl \<Rightarrow> ctl" where
  "setInterval s = s\<lparr>intervals := intervals s @ [nextHandle s], nextHandle := Suc (nextHandle s)\<rparr>"

definition clearTimeout :: "nat option \<Rightarrow> ctl \<Rightarrow> ctl" where
  "clearTimeout h s =
     (case h of
        None \<Rightarrow> s
      | Some k \<Rightarrow> s\<lparr>timeouts := filter (\<lambda>x. fst x \<noteq> k) (timeouts s),
                    intervals := removeAll k (intervals s)\<rparr>)"

definition clearInterval :: "nat option \<Rightarrow> ctl \<Rightarrow> ctl" where
  "clearInterval h s = clearTimeout h s"

subsection \<open>Utility methods\<close>

definition stripHash :: "string \<Rightarrow> string" where
  "stripHash s = (case s of [] \<Rightarrow> [] | c # cs \<Rightarrow> if c = CHR ''#'' then cs else s)"

text \<open>Modelled from the spec: \<open>getById\<close> of \<open>./dom\<close>, an element lookup by id that gives
  \<open>null\<close> when there is none.\<close>

definition getById :: "env \<Rightarrow> string \<Rightarrow> jsval" where
  "getById e i = (case getElementById e (stripHash i) of None \<Rightarrow> JNull | Some el \<Rightarrow> JElem el)"

text \<open>\<open>v ? v.$el || v : other\<close>, the unwrapping of a possible component reference.\<close>

definition elOrSelf :: "jsval \<Rightarrow> jsval \<Rightarrow> jsval" where
  "elOrSelf v other =
     (if truthy v then (if truthy (getProp v ''$el'') then getProp v ''$el'' else v) else other)"

definition getTarget :: "config \<Rightarrow> env \<Rightarrow> nat option" where
  "getTarget cfg e =
     (let t1 = elOrSelf (target cfg) JNull;
          t2 = (case t1 of JStr s \<Rightarrow> getById e (stripHash s) | _ \<Rightarrow> JNull)
      in case t2 of JElem el \<Rightarrow> Some el | _ \<Rightarrow> None)"

definition getPlacementTarget :: "config \<Rightarrow> env \<Rightarrow> nat option" where
  "getPlacementTarget cfg e = getTarget cfg e"

definition getTargetId :: "config \<Rightarrow> env \<Rightarrow> string option" where
  "getTargetId cfg e =
     (case getTarget cfg e of
        None \<Rightarrow> None
      | Some t \<Rightarrow> if elementId e t \<noteq> [] then Some (elementId e t) else None)"

definition getContainer :: "config \<Rightarrow> env \<Rightarrow> container_ref" where
  "getContainer cfg e =
     (if \<not> truthy (container cfg)
      then (case getTarget cfg e of
              None \<Rightarrow> ContainerBody
            | Some t \<Rightarrow> (case closestModal e t of None \<Rightarrow> ContainerBody
                                               | Some m \<Rightarrow> ContainerElem m))
      else (case elOrSelf (container cfg) (JBool False) of
              JStr s \<Rightarrow> (case getById e (stripHash s) of JElem el \<Rightarrow> ContainerElem el
                                                         | _ \<Rightarrow> ContainerBody)
            | _ \<Rightarrow> ContainerBody))"

definition getBoundary :: "config \<Rightarrow> jsval" where
  "getBoundary cfg = elOrSelf (boundary cfg) (JStr ''scrollParent'')"

definition computedId :: "config \<Rightarrow> string" where
  "computedId cfg = ''__bv_'' @ templateType cfg @ ''_'' @ natToString (uid cfg) @ ''__''"

definition isInModal :: "config \<Rightarrow> env \<Rightarrow> bool" where
  "isInModal cfg e =
     (case getTarget cfg e of None \<Rightarrow> False | Some t \<Rightarrow> closestModal e t \<noteq> None)"

definition isDropdown :: "config \<Rightarrow> env \<Rightarrow> bool" where
  "isDropdown cfg e = (case getTarget cfg e of None \<Rightarrow> False | Some t \<Rightarrow> hasDropdownClass e t)"

definition dropdownOpen :: "config \<Rightarrow> env \<Rightarrow> bool" where
  "dropdownOpen cfg e =
     (isDropdown cfg e \<and>
      (case getTarget cfg e of None \<Rightarrow> False | Some t \<Rightarrow> dropdownMenuShown e t))"

text \<open>Modelled from the spec: \<open>isVisible\<close> of \<open>./dom\<close>; no element is never visible.\<close>

definition isVisible :: "env \<Rightarrow> nat option \<Rightarrow> bool" where
  "isVisible e t = (case t of None \<Rightarrow> False | Some el \<Rightarrow> elVisible e el)"

definition isWithActiveTrigger :: "ctl \<Rightarrow> bool" where
  "isWithActiveTrigger s =
     (at_hover (activeTrigger s) \<or> at_click (activeTrigger s) \<or> at_focus (activeTrigger s)
      \<or> at_manual (activeTrigger s))"

definition clearActiveTriggers :: "ctl \<Rightarrow> ctl" where
  "clearActiveTriggers s =
     s\<lparr>activeTrigger := \<lparr>at_hover = False, at_click = False, at_focus = False, at_manual = False\<rparr>\<rparr>"

definition getTemplateElement :: "ctl \<Rightarrow> bool" where
  "getTemplateElement s = (case tip s of None \<Rightarrow> False | Some t \<Rightarrow> tip_el t)"

subsection \<open>The \<open>aria-describedby\<close> attribute\<close>

text \<open>Modelled from the spec: \<open>getAttr\<close>, \<open>setAttr\<close> and \<open>removeAttr\<close> of \<open>./dom\<close>, which do
  nothing (and read \<open>null\<close>) when there is no element. \<open>attrs\<close> holds the one attribute
  the controller touches.\<close>

definition getAttr :: "ctl \<Rightarrow> nat option \<Rightarrow> string option" where
  "getAttr s t = (case t of None \<Rightarrow> None | Some el \<Rightarrow> attrs s el)"

definition setAttr :: "nat option \<Rightarrow> string \<Rightarrow> ctl \<Rightarrow> ctl" where
  "setAttr t v s = (case t of None \<Rightarrow> s | Some el \<Rightarrow> s\<lparr>attrs := (attrs s)(el := Some v)\<rparr>)"

definition removeAttr :: "nat option \<Rightarrow> ctl \<Rightarrow> ctl" where
  "removeAttr t s = (case t of None \<Rightarrow> s | Some el \<Rightarrow> s\<lparr>attrs := (attrs s)(el := None)\<rparr>)"

text \<open>\<open>getAttr(target, 'aria-describedby') || ''\<close>.\<close>

definition attrOrEmpty :: "string option \<Rightarrow> string" where
  "attrOrEmpty a = (case a of None \<Rightarrow> [] | Some v \<Rightarrow> v)"

definition addedDesc :: "string \<Rightarrow> string \<Rightarrow> string" where
  "addedDesc cid desc = trim (joinSp (splitWs desc @ [cid]))"

definition removedDesc :: "string \<Rightarrow> string \<Rightarrow> string" where
  "removedDesc cid desc = trim (joinSp (filter (\<lambda>d. d \<noteq> cid) (splitWs desc)))"

definition addAriaDescribedby :: "config \<Rightarrow> env \<Rightarrow> ctl \<Rightarrow> ctl" where
  "addAriaDescribedby cfg e s =
     (let tg = getTarget cfg e;
          desc = addedDesc (computedId cfg) (attrOrEmpty (getAttr s tg))
      in setAttr tg desc s)"

definition removeAriaDescribedby :: "config \<Rightarrow> env \<Rightarrow> ctl \<Rightarrow> ctl" where
  "removeAriaDescribedby cfg e s =
     (let tg = getTarget cfg e;
          desc = removedDesc (computedId cfg) (attrOrEmpty (getAttr s tg))
      in if desc \<noteq> [] then setAttr tg desc s else removeAttr tg s)"

text \<open>Both bodies are empty in the source.\<close>

definition fixTitle :: "ctl \<Rightarrow> ctl" where
  "fixTitle s = s"

definition restoreTitle :: "ctl \<Rightarrow> ctl" where
  "restoreTitle s = s"

subsection \<open>Notifications\<close>

text \<open>
  \<open>emitEvent\<close> records the notification type. Modelled from the spec: the cancelable event
  object of \<open>./bv-event.class\<close>, whose default is prevented only when it is cancelable and
  a listener asks for it.
\<close>

definition emitEvent :: "string \<Rightarrow> ctl \<Rightarrow> ctl" where
  "emitEvent evtName s = s\<lparr>emitted := emitted s @ [evtName]\<rparr>"

definition defaultPrevented :: "bool \<Rightarrow> bool \<Rightarrow> bool" where
  "defaultPrevented cancelable listenerPrevents = (cancelable \<and> listenerPrevents)"

subsection \<open>Listener set-up\<close>

definition rootOn :: "string \<Rightarrow> ctl \<Rightarrow> ctl" where
  "rootOn name s = s\<lparr>rootListeners := rootListeners s @ [name]\<rparr>"

definition rootOff :: "string \<Rightarrow> ctl \<Rightarrow> ctl" where
  "rootOff name s = s\<lparr>rootListeners := remove1 name (rootListeners s)\<rparr>"

definition rootSet :: "bool \<Rightarrow> string \<Rightarrow> ctl \<Rightarrow> ctl" where
  "rootSet on name s = (if on then rootOn name s else rootOff name s)"

text \<open>\<open>eventOn\<close> / \<open>eventOff\<close>: registering the same handler for the same event twice
  registers it once.\<close>

definition eventOn :: "nat \<Rightarrow> string \<Rightarrow> ctl \<Rightarrow> ctl" where
  "eventOn el evt s = s\<lparr>domListeners := List.insert (el, evt) (domListeners s)\<rparr>"

definition eventOff :: "nat \<Rightarrow> string \<Rightarrow> ctl \<Rightarrow> ctl" where
  "eventOff el evt s = s\<lparr>domListeners := removeAll (el, evt) (domListeners s)\<rparr>"

definition setRootListener :: "config \<Rightarrow> bool \<Rightarrow> ctl \<Rightarrow> ctl" where
  "setRootListener cfg on s =
     rootSet on (''bv::enable::'' @ templateType cfg)
       (rootSet on (''bv::disable::'' @ templateType cfg)
         (rootSet on (''bv::show::'' @ templateType cfg)
           (rootSet on (''bv::hide::'' @ templateType cfg) s)))"

definition listenTrigger :: "nat \<Rightarrow> ctl \<Rightarrow> string \<Rightarrow> ctl" where
  "listenTrigger el s trigger =
     (if trigger = ''click'' then eventOn el ''click'' s
      else if trigger = ''focus'' then eventOn el ''focusout'' (eventOn el ''focusin'' s)
      else if trigger = ''blur'' then eventOn el ''focusout'' s
      else if trigger = ''hover'' then eventOn el ''mouseleave'' (eventOn el ''mouseenter'' s)
      else s)"

definition listen :: "config \<Rightarrow> env \<Rightarrow> ctl \<Rightarrow> ctl" where
  "listen cfg e s =
     (case getTarget cfg e of
        None \<Rightarrow> s
      | Some el \<Rightarrow>
          foldl (listenTrigger el) (setRootListener cfg True s) (computedTriggers (triggers cfg)))"

definition unListen :: "config \<Rightarrow> env \<Rightarrow> ctl \<Rightarrow> ctl" where
  "unListen cfg e s =
     setRootListener cfg False
       (case getTarget cfg e of
          None \<Rightarrow> s
        | Some el \<Rightarrow>
            foldl (\<lambda>st evt. eventOff el evt st) s
              [''click'', ''focusin'', ''focusout'', ''mouseenter'', ''mouseleave''])"

definition setModalListener :: "config \<Rightarrow> env \<Rightarrow> bool \<Rightarrow> ctl \<Rightarrow> ctl" where
  "setModalListener cfg e on s =
     (if isInModal cfg e then rootSet on ''bv::modal::hidden'' s else s)"

text \<open>The guard reads \<open>this.isDropdown\<close>, the method itself, which is never falsy, and
  \<open>$root\<close>, which every instance has: only a missing target returns early.\<close>

definition setDropdownListener :: "config \<Rightarrow> env \<Rightarrow> bool \<Rightarrow> ctl \<Rightarrow> ctl" where
  "setDropdownListener cfg e on s =
     (case getTarget cfg e of
        None \<Rightarrow> s
      | Some t \<Rightarrow>
          if hasVueInstance e t
          then (if on then s\<lparr>vueListeners := vueListeners s @ [t]\<rparr>
                else s\<lparr>vueListeners := remove1 t (vueListeners s)\<rparr>)
          else s)"

definition visibleCheck :: "bool \<Rightarrow> ctl \<Rightarrow> ctl" where
  "visibleCheck on s =
     (let s1 = (clearInterval (us_visibleInterval s) s)\<lparr>us_visibleInterval := None\<rparr>
      in if on then (setInterval s1)\<lparr>visibleInterval := Some (nextHandle s1)\<rparr> else s1)"

definition setOnTouchStartListener :: "env \<Rightarrow> bool \<Rightarrow> ctl \<Rightarrow> ctl" where
  "setOnTouchStartListener e on s = (if touchSupport e then s\<lparr>touchListeners := on\<rparr> else s)"

definition setWhileOpenListeners :: "config \<Rightarrow> env \<Rightarrow> bool \<Rightarrow> ctl \<Rightarrow> ctl" where
  "setWhileOpenListeners cfg e on s =
     setOnTouchStartListener e on
       (visibleCheck on (setDropdownListener cfg e on (setModalListener cfg e on s)))"

subsection \<open>Creating and destroying the template\<close>

definition createTemplateAndShow :: "config \<Rightarrow> env \<Rightarrow> ctl \<Rightarrow> ctl" where
  "createTemplateAndShow cfg e s =
     s\<lparr>localPlacementTarget := getPlacementTarget cfg e,
       localContainer := getContainer cfg e,
       localBoundary := getBoundary cfg,
       tip := Some \<lparr>tip_el = tipMounts e, tip_hiding = False\<rparr>\<rparr>"

definition hideTemplate :: "ctl \<Rightarrow> ctl" where
  "hideTemplate s =
     (case tip s of None \<Rightarrow> s | Some t \<Rightarrow> s\<lparr>tip := Some (t\<lparr>tip_hiding := True\<rparr>)\<rparr>)"

definition destroyTemplate :: "config \<Rightarrow> env \<Rightarrow> ctl \<Rightarrow> ctl" where
  "destroyTemplate cfg e s =
     (let s1 = setWhileOpenListeners cfg e False s;
          s2 = clearTimeout (us_hoverTimeout s1) s1;
          s3 = s2\<lparr>us_hoverTimout := None,
                  localPlacementTarget := None,
                  localContainer := ContainerNull,
                  localBoundary := JStr ''scrollParent''\<rparr>;
          s4 = clearActiveTriggers s3
      in s4\<lparr>hoverState := HoverNone, localShow := False, tip := None\<rparr>)"

text \<open>
  The component defines no method, data field, prop or computed property named
  \<open>destroyTip\<close>, so \<open>this.destroyTip\<close> is \<open>undefined\<close> and calling it throws. An error
  carries the state at the moment of the throw.
\<close>

definition destroyTip :: "ctl \<Rightarrow> (js_error \<times> ctl) + ctl" where
  "destroyTip s = Inl (TypeError ''this.destroyTip is not a function'', s)"

subsection \<open>Show and hide handlers\<close>

text \<open>\<open>ctl_show\<close> is the method \<open>show\<close>.\<close>

definition ctl_show :: "config \<Rightarrow> env \<Rightarrow> ctl \<Rightarrow> (js_error \<times> ctl) + ctl" where
  "ctl_show cfg e s =
     (case getTarget cfg e of
        None \<Rightarrow> Inr s
      | Some tg \<Rightarrow>
          if \<not> bodyContains e tg \<or> \<not> isVisible e (Some tg) \<or> dropdownOpen cfg e then Inr s
          else
            let s1 = emitEvent ''show'' s
            in if defaultPrevented True (showPrevented e) then destroyTip s1
               else Inr (createTemplateAndShow cfg e
                          ((addAriaDescribedby cfg e (fixTitle s1))\<lparr>localShow := True\<rparr>)))"

definition hide :: "config \<Rightarrow> env \<Rightarrow> bool \<Rightarrow> ctl \<Rightarrow> ctl" where
  "hide cfg e force s =
     (if \<not> getTemplateElement s \<or> \<not> localShow s then s
      else
        let s1 = emitEvent ''hide'' s
        in if defaultPrevented (\<not> force) (hidePrevented e) then s1
           else (clearActiveTriggers (hideTemplate s1))\<lparr>hoverState := HoverNone\<rparr>)"

definition forceHide :: "config \<Rightarrow> env \<Rightarrow> ctl \<Rightarrow> ctl" where
  "forceHide cfg e s =
     (if \<not> getTemplateElement s \<or> \<not> localShow s then s
      else
        let s1 = setWhileOpenListeners cfg e False s;
            s2 = (clearTimeout (hoverTimeout s1) s1)\<lparr>hoverTimeout := None, hoverState := HoverNone\<rparr>
        in hide cfg e True (clearActiveTriggers s2))"

definition enable :: "ctl \<Rightarrow> ctl" where
  "enable s = emitEvent ''enabled'' (s\<lparr>enabled := True\<rparr>)"

definition disable :: "ctl \<Rightarrow> ctl" where
  "disable s = emitEvent ''disabled'' (s\<lparr>enabled := False\<rparr>)"

subsection \<open>Trigger handlers\<close>

text \<open>A DOM event as the handlers read it: its type, and for \<open>focusout\<close> whether the tip
  element and the host contain \<open>evt.target\<close> and \<open>evt.relatedTarget\<close>.\<close>

record dom_event =
  ev_type :: string
  tipHasTarget :: bool
  tipHasRelated :: bool
  hostHasTarget :: bool
  hostHasRelated :: bool

definition setActive :: "string \<Rightarrow> bool \<Rightarrow> ctl \<Rightarrow> ctl" where
  "setActive key v s =
     (if key = ''focus'' then s\<lparr>activeTrigger := (activeTrigger s)\<lparr>at_focus := v\<rparr>\<rparr>
      else if key = ''hover'' then s\<lparr>activeTrigger := (activeTrigger s)\<lparr>at_hover := v\<rparr>\<rparr>
      else if key = ''click'' then s\<lparr>activeTrigger := (activeTrigger s)\<lparr>at_click := v\<rparr>\<rparr>
      else s)"

definition enter :: "config \<Rightarrow> env \<Rightarrow> dom_event option \<Rightarrow> ctl \<Rightarrow> (js_error \<times> ctl) + ctl" where
  "enter cfg e evt s =
     (let s1 = (case evt of
                  None \<Rightarrow> s
                | Some ev \<Rightarrow> setActive (if ev_type ev = ''focusin'' then ''focus'' else ''hover'') True s)
      in if localShow s1 \<or> hoverState s1 = HoverIn then Inr (s1\<lparr>hoverState := HoverIn\<rparr>)
         else
           let s2 = (clearTimeout (hoverTimeout s1) s1)\<lparr>hoverState := HoverIn\<rparr>
           in if delay_show (computedDelay (delay cfg)) = 0 then ctl_show cfg e s2
              else Inr ((setTimeout ShowCb (delay_show (computedDelay (delay cfg))) s2)
                          \<lparr>hoverTimeout := Some (nextHandle s2)\<rparr>))"

definition leave :: "config \<Rightarrow> env \<Rightarrow> dom_event option \<Rightarrow> ctl \<Rightarrow> ctl" where
  "leave cfg e evt s =
     (let s1 = (case evt of
                  None \<Rightarrow> s
                | Some ev \<Rightarrow>
                    let sa = setActive (if ev_type ev = ''focusout'' then ''focus'' else ''hover'') False s
                    in if ev_type ev = ''focusout'' \<and> ''blur'' \<in> set (computedTriggers (triggers cfg))
                       then setActive ''hover'' False (setActive ''click'' False sa)
                       else sa)
      in if isWithActiveTrigger s1 then s1
         else
           let s2 = (clearTimeout (hoverTimeout s1) s1)\<lparr>hoverState := HoverOut\<rparr>
           in if delay_hide (computedDelay (delay cfg)) = 0 then hide cfg e False s2
              else (setTimeout HideCb (delay_hide (computedDelay (delay cfg))) s2)
                     \<lparr>ds_hoverTimeout := Some (nextHandle s2)\<rparr>)"

definition click :: "config \<Rightarrow> env \<Rightarrow> ctl \<Rightarrow> (js_error \<times> ctl) + ctl" where
  "click cfg e s =
     (if \<not> enabled s \<or> dropdownOpen cfg e then Inr s
      else
        let s1 = setActive ''click'' (\<not> at_click (activeTrigger s)) s
        in if isWithActiveTrigger s1 then enter cfg e None s1 else Inr (leave cfg e None s1))"

definition toggle :: "config \<Rightarrow> env \<Rightarrow> ctl \<Rightarrow> (js_error \<times> ctl) + ctl" where
  "toggle cfg e s =
     (if \<not> enabled s \<or> dropdownOpen cfg e then Inr s
      else if localShow s then Inr (leave cfg e None s)
      else enter cfg e None s)"

text \<open>The four-way containment test of \<open>handleEvent\<close> for a \<open>focusout\<close>.\<close>

definition focusStaysWithin :: "dom_event \<Rightarrow> ctl \<Rightarrow> bool" where
  "focusStaysWithin ev s =
     ((getTemplateElement s \<and> tipHasTarget ev \<and> hostHasRelated ev) \<or>
      (getTemplateElement s \<and> hostHasTarget ev \<and> tipHasRelated ev) \<or>
      (getTemplateElement s \<and> tipHasTarget ev \<and> tipHasRelated ev) \<or>
      (hostHasTarget ev \<and> hostHasRelated ev))"

definition handleEvent :: "config \<Rightarrow> env \<Rightarrow> dom_event \<Rightarrow> ctl \<Rightarrow> (js_error \<times> ctl) + ctl" where
  "handleEvent cfg e ev s =
     (case getTarget cfg e of
        None \<Rightarrow> Inr s
      | Some tg \<Rightarrow>
          if elDisabled e tg \<or> \<not> enabled s \<or> dropdownOpen cfg e then Inr s
          else
            let ty = ev_type ev; trigs = computedTriggers (triggers cfg)
            in if ty = ''click'' \<and> ''click'' \<in> set trigs then click cfg e s
               else if ty = ''mouseenter'' \<and> ''hover'' \<in> set trigs then enter cfg e (Some ev) s
               else if ty = ''mouseleave'' \<and> ''hover'' \<in> set trigs then Inr (leave cfg e (Some ev) s)
               else if ty = ''focusin'' \<and> ''focus'' \<in> set trigs then enter cfg e (Some ev) s
               else if ty = ''focusout'' \<and> (''focus'' \<in> set trigs \<or> ''blur'' \<in> set trigs)
               then (if focusStaysWithin ev s then Inr s else Inr (leave cfg e (Some ev) s))
               else Inr s)"

text \<open>The global commands; an absent or empty id addresses every controller.\<close>

definition doHide :: "config \<Rightarrow> env \<Rightarrow> string \<Rightarrow> ctl \<Rightarrow> ctl" where
  "doHide cfg e i s =
     (if i = [] then forceHide cfg e s
      else if getTargetId cfg e = Some i \<or> computedId cfg = i then forceHide cfg e s
      else s)"

definition doShow :: "config \<Rightarrow> env \<Rightarrow> string \<Rightarrow> ctl \<Rightarrow> (js_error \<times> ctl) + ctl" where
  "doShow cfg e i s =
     (if i = [] then ctl_show cfg e s
      else if getTargetId cfg e = Some i \<or> computedId cfg = i then ctl_show cfg e s
      else Inr s)"

definition doDisable :: "config \<Rightarrow> env \<Rightarrow> string \<Rightarrow> ctl \<Rightarrow> ctl" where
  "doDisable cfg e i s =
     (if i = [] then disable s
      else if getTargetId cfg e = Some i \<or> computedId cfg = i then disable s
      else s)"

definition doEnable :: "config \<Rightarrow> env \<Rightarrow> string \<Rightarrow> ctl \<Rightarrow> ctl" where
  "doEnable cfg e i s =
     (if i = [] then enable s
      else if getTargetId cfg e = Some i \<or> computedId cfg = i then enable s
      else s)"

subsection \<open>Handlers for template events\<close>

definition onTemplateShow :: "config \<Rightarrow> env \<Rightarrow> ctl \<Rightarrow> ctl" where
  "onTemplateShow cfg e s = setWhileOpenListeners cfg e True s"

definition onTemplateShown :: "config \<Rightarrow> env \<Rightarrow> ctl \<Rightarrow> ctl" where
  "onTemplateShown cfg e s =
     (let prevHoverState = hoverState s;
          s1 = s\<lparr>hoverState := HoverNone\<rparr>;
          s2 = (if prevHoverState = HoverOut then leave cfg e None s1 else s1)
      in emitEvent ''shown'' s2)"

definition onTemplateHide :: "config \<Rightarrow> env \<Rightarrow> ctl \<Rightarrow> ctl" where
  "onTemplateHide cfg e s = setWhileOpenListeners cfg e False s"

definition onTemplateHidden :: "config \<Rightarrow> env \<Rightarrow> ctl \<Rightarrow> ctl" where
  "onTemplateHidden cfg e s =
     emitEvent ''hidden'' (destroyTemplate cfg e (restoreTitle (removeAriaDescribedby cfg e s)))"

definition onTemplateDestruct :: "config \<Rightarrow> env \<Rightarrow> ctl \<Rightarrow> ctl" where
  "onTemplateDestruct cfg e s = destroyTemplate cfg e s"

subsection \<open>Timer callbacks and the passing of time\<close>

text \<open>The closures given to \<open>setTimeout\<close> by \<open>enter\<close> and \<open>leave\<close>, and the one given to
  \<open>setInterval\<close> by \<open>visibleCheck\<close>.\<close>

definition runTimeoutCb :: "config \<Rightarrow> env \<Rightarrow> timer_cb \<Rightarrow> ctl \<Rightarrow> (js_error \<times> ctl) + ctl" where
  "runTimeoutCb cfg e cb s =
     (case cb of
        ShowCb \<Rightarrow> if hoverState s = HoverIn then ctl_show cfg e s else Inr s
      | HideCb \<Rightarrow> if hoverState s = HoverOut then Inr (hide cfg e False s) else Inr s)"

definition visibleCheckCb :: "config \<Rightarrow> env \<Rightarrow> ctl \<Rightarrow> ctl" where
  "visibleCheckCb cfg e s =
     (if getTemplateElement s \<and> \<not> isVisible e (getTarget cfg e) \<and> localShow s
      then forceHide cfg e s else s)"

text \<open>An exception that escapes a callback is reported and the state stays as it was at
  the throw.\<close>

definition settle :: "(js_error \<times> ctl) + ctl \<Rightarrow> ctl" where
  "settle r = (case r of Inl (err, s) \<Rightarrow> s\<lparr>uncaught := uncaught s @ [err]\<rparr> | Inr s \<Rightarrow> s)"

text \<open>
  A timeout fires once, if it is still pending when its turn comes. \<open>advance\<close> moves the
  clock to \<open>t\<close> and fires the timeouts due by then, earliest first; no callback schedules
  a timeout, so the ones pending at the start are all there is to fire. An interval
  handle that is running may tick at any time (\<open>pollTick\<close>).
\<close>

definition fireTimeout :: "config \<Rightarrow> env \<Rightarrow> nat \<times> nat \<times> timer_cb \<Rightarrow> ctl \<Rightarrow> ctl" where
  "fireTimeout cfg e x s =
     (if x \<in> set (timeouts s)
      then settle (runTimeoutCb cfg e (snd (snd x))
                     (s\<lparr>timeouts := removeAll x (timeouts s),
                        now := max (now s) (fst (snd x))\<rparr>))
      else s)"

fun runTimeouts :: "config \<Rightarrow> env \<Rightarrow> (nat \<times> nat \<times> timer_cb) list \<Rightarrow> ctl \<Rightarrow> ctl" where
  "runTimeouts cfg e [] s = s"
| "runTimeouts cfg e (x # xs) s = runTimeouts cfg e xs (fireTimeout cfg e x s)"

definition dueTimeouts :: "nat \<Rightarrow> ctl \<Rightarrow> (nat \<times> nat \<times> timer_cb) list" where
  "dueTimeouts t s = sort_key (\<lambda>x. fst (snd x)) (filter (\<lambda>x. fst (snd x) \<le> t) (timeouts s))"

definition advance :: "config \<Rightarrow> env \<Rightarrow> nat \<Rightarrow> ctl \<Rightarrow> ctl" where
  "advance cfg e t s = (let s1 = runTimeouts cfg e (dueTimeouts t s) s in s1\<lparr>now := max (now s1) t\<rparr>)"

definition pollTick :: "config \<Rightarrow> env \<Rightarrow> nat \<Rightarrow> ctl \<Rightarrow> ctl" where
  "pollTick cfg e h s = (if h \<in> set (intervals s) then visibleCheckCb cfg e s else s)"

subsection \<open>Life cycle\<close>

text \<open>\<open>data()\<close> on a fresh instance, in a world without timers, listeners or attributes.\<close>

definition initData :: "config \<Rightarrow> ctl" where
  "initData cfg =
     \<lparr>localPlacementTarget = None, localContainer = ContainerNull,
      localBoundary = JStr ''scrollParent'',
      activeTrigger = \<lparr>at_hover = False, at_click = False, at_focus = False, at_manual = False\<rparr>,
      hoverState = HoverNone, localShow = False, enabled = (\<not> disabled cfg),
      tip = None, us_hoverTimeout = None, us_hoverTimout = None, ds_hoverTimeout = None,
      hoverTimeout = None, us_visibleInterval = None, visibleInterval = None,
      now = 0, nextHandle = 1, timeouts = [], intervals = [],
      domListeners = [], rootListeners = [], vueListeners = [], touchListeners = False,
      attrs = (\<lambda>el. None), emitted = [], uncaught = []\<rparr>"

definition created :: "config \<Rightarrow> env \<Rightarrow> ctl \<Rightarrow> ctl" where
  "created cfg e s =
     listen cfg e (s\<lparr>tip := None, us_hoverTimeout := None, us_visibleInterval := None\<rparr>)"

definition deactivated :: "config \<Rightarrow> env \<Rightarrow> ctl \<Rightarrow> ctl" where
  "deactivated cfg e s = forceHide cfg e s"

definition beforDestroy :: "config \<Rightarrow> env \<Rightarrow> ctl \<Rightarrow> (js_error \<times> ctl) + ctl" where
  "beforDestroy cfg e s =
     (let s1 = setWhileOpenListeners cfg e False (unListen cfg e s);
          s2 = (clearTimeout (us_hoverTimeout s1) s1)\<lparr>us_hoverTimeout := None\<rparr>
      in destroyTip s2)"

text \<open>
  The options object of the component registers three functions under these keys.
  The framework's \<open>$destroy\<close> (outside the repository) runs the functions registered
  under \<open>beforeDestroy\<close> and then those under \<open>destroyed\<close>; a key it does not know is
  never called.
\<close>

datatype hook_body = HookCreated | HookDeactivated | HookBeforDestroy

definition componentHooks :: "(string \<times> hook_body) list" where
  "componentHooks =
     [(''created'', HookCreated), (''deactivated'', HookDeactivated),
      (''beforDestroy'', HookBeforDestroy)]"

definition runHook :: "config \<Rightarrow> env \<Rightarrow> hook_body \<Rightarrow> ctl \<Rightarrow> (js_error \<times> ctl) + ctl" where
  "runHook cfg e h s =
     (case h of
        HookCreated \<Rightarrow> Inr (created cfg e s)
      | HookDeactivated \<Rightarrow> Inr (deactivated cfg e s)
      | HookBeforDestroy \<Rightarrow> beforDestroy cfg e s)"

definition callHook :: "config \<Rightarrow> env \<Rightarrow> string \<Rightarrow> ctl \<Rightarrow> (js_error \<times> ctl) + ctl" where
  "callHook cfg e name s =
     (case map_of componentHooks name of None \<Rightarrow> Inr s | Some h \<Rightarrow> runHook cfg e h s)"

definition vueDestroy :: "config \<Rightarrow> env \<Rightarrow> ctl \<Rightarrow> (js_error \<times> ctl) + ctl" where
  "vueDestroy cfg e s =
     (case callHook cfg e ''beforeDestroy'' s of
        Inl err \<Rightarrow> Inl err
      | Inr s1 \<Rightarrow> callHook cfg e ''destroyed'' s1)"

section \<open>A concrete controller\<close>

text \<open>
  The scenario configuration: triggers \<open>"hover focus"\<close>, delay \<open>{show: 100, hide: 50}\<close>,
  the host given by the id \<open>host\<close>; and a document in which that id resolves to a visible,
  enabled element that is no dropdown, where no listener prevents a notification.
\<close>

definition cfg0 :: config where
  "cfg0 =
     \<lparr>triggers = TrigStr ''hover focus'',
      delay = JObj [(''show'', JNum 100), (''hide'', JNum 50)],
      target = JStr ''host'', container = JNull, boundary = JStr ''scrollParent'',
      disabled = False, uid = 7, templateType = ''tooltip''\<rparr>"

definition env0 :: env where
  "env0 =
     \<lparr>getElementById = (\<lambda>i. if i = ''host'' then Some 1 else None),
      bodyContains = (\<lambda>el. True), elVisible = (\<lambda>el. True), elDisabled = (\<lambda>el. False),
      hasDropdownClass = (\<lambda>el. False), dropdownMenuShown = (\<lambda>el. False),
      closestModal = (\<lambda>el. None), hasVueInstance = (\<lambda>el. False),
      elementId = (\<lambda>el. ''host''),
      touchSupport = False, showPrevented = False, hidePrevented = False, tipMounts = True\<rparr>"

definition domEvent :: "string \<Rightarrow> dom_event" where
  "domEvent ty =
     \<lparr>ev_type = ty, tipHasTarget = False, tipHasRelated = False,
      hostHasTarget = (ty \<noteq> ''mouseenter'' \<and> ty \<noteq> ''focusin''), hostHasRelated = False\<rparr>"

definition sCreated :: ctl where
  "sCreated = created cfg0 env0 (initData cfg0)"

text \<open>The same document, with a listener that prevents the default of \<open>show\<close>.\<close>

definition envPrevent :: env where
  "envPrevent = env0\<lparr>showPrevented := True\<rparr>"

section \<open>The event loop\<close>

text \<open>
  Everything that can reach the controller: a DOM event passed to \<open>handleEvent\<close>, a call
  of a public method, an event of the template, the passing of time, a tick of a running
  interval, a command on the global channel (heard while the root listener is
  registered), the modal and dropdown notifications (heard while their while-open
  listener is registered), deactivation and destruction. An exception that escapes is
  reported and the loop goes on.
\<close>

datatype input =
    Dom dom_event
  | CallToggle
  | CallShow
  | CallHide bool
  | CallForceHide
  | CallEnable
  | CallDisable
  | TemplateShow
  | TemplateShown
  | TemplateHide
  | TemplateHidden
  | TemplateSelfDestruct
  | Elapse nat
  | PollFires nat
  | RootHide string
  | RootShow string
  | RootDisable string
  | RootEnable string
  | ModalHidden
  | DropdownShown nat
  | Deactivate
  | Destroy

definition stateOf :: "(js_error \<times> ctl) + ctl \<Rightarrow> ctl" where
  "stateOf r = (case r of Inl (err, s) \<Rightarrow> s | Inr s \<Rightarrow> s)"

definition step :: "config \<Rightarrow> ctl \<Rightarrow> env \<times> input \<Rightarrow> ctl" where
  "step cfg s x =
     (let e = fst x in
      case snd x of
        Dom ev \<Rightarrow> settle (handleEvent cfg e ev s)
      | CallToggle \<Rightarrow> settle (toggle cfg e s)
      | CallShow \<Rightarrow> settle (ctl_show cfg e s)
      | CallHide force \<Rightarrow> hide cfg e force s
      | CallForceHide \<Rightarrow> forceHide cfg e s
      | CallEnable \<Rightarrow> enable s
      | CallDisable \<Rightarrow> disable s
      | TemplateShow \<Rightarrow> onTemplateShow cfg e s
      | TemplateShown \<Rightarrow> onTemplateShown cfg e s
      | TemplateHide \<Rightarrow> onTemplateHide cfg e s
      | TemplateHidden \<Rightarrow> onTemplateHidden cfg e s
      | TemplateSelfDestruct \<Rightarrow> destroyTemplate cfg e s
      | Elapse t \<Rightarrow> advance cfg e t s
      | PollFires h \<Rightarrow> pollTick cfg e h s
      | RootHide i \<Rightarrow>
          if (''bv::hide::'' @ templateType cfg) \<in> set (rootListeners s) then doHide cfg e i s else s
      | RootShow i \<Rightarrow>
          if (''bv::show::'' @ templateType cfg) \<in> set (rootListeners s)
          then settle (doShow cfg e i s) else s
      | RootDisable i \<Rightarrow>
          if (''bv::disable::'' @ templateType cfg) \<in> set (rootListeners s)
          then doDisable cfg e i s else s
      | RootEnable i \<Rightarrow>
          if (''bv::enable::'' @ templateType cfg) \<in> set (rootListeners s)
          then doEnable cfg e i s else s
      | ModalHidden \<Rightarrow> if ''bv::modal::hidden'' \<in> set (rootListeners s) then forceHide cfg e s else s
      | DropdownShown el \<Rightarrow> if el \<in> set (vueListeners s) then forceHide cfg e s else s
      | Deactivate \<Rightarrow> deactivated cfg e s
      | Destroy \<Rightarrow> settle (vueDestroy cfg e s))"

definition run :: "config \<Rightarrow> ctl \<Rightarrow> (env \<times> input) list \<Rightarrow> ctl" where
  "run cfg s xs = foldl (step cfg) s xs"

section \<open>Notions the properties are stated with\<close>

text \<open>The ids an \<open>aria-describedby\<close> value lists, and the value that lists the same ids
  separated by single spaces (no attribute when there is none).\<close>

definition describedIds :: "string \<Rightarrow> string list" where
  "describedIds s = filter (\<lambda>t. t \<noteq> []) (splitWs s)"

definition normalisedDesc :: "string \<Rightarrow> string option" where
  "normalisedDesc d = (if describedIds d = [] then None else Some (joinSp (describedIds d)))"

text \<open>The document-side part of the guard of \<open>handleEvent\<close>: the host is found, is not
  disabled and is not an open dropdown.\<close>

definition hostResponsive :: "config \<Rightarrow> env \<Rightarrow> bool" where
  "hostResponsive cfg e =
     (case getTarget cfg e of None \<Rightarrow> False | Some tg \<Rightarrow> \<not> (elDisabled e tg \<or> dropdownOpen cfg e))"

definition pendingCallbacks :: "ctl \<Rightarrow> timer_cb list" where
  "pendingCallbacks s = map (\<lambda>x. snd (snd x)) (timeouts s)"

text \<open>The state without its two listener tables: what \<open>listen\<close> and \<open>unListen\<close> leave
  alone.\<close>

definition withoutListeners :: "ctl \<Rightarrow> ctl" where
  "withoutListeners s = s\<lparr>domListeners := [], rootListeners := []\<rparr>"

text \<open>The \<open>manual\<close> flag of \<open>activeTrigger\<close> is off.\<close>

definition manualOff :: "ctl \<Rightarrow> bool" where
  "manualOff s = (\<not> at_manual (activeTrigger s))"

text \<open>The overlay is closing: the template has been told to hide and the hover state is
  reset. \<open>closingOrDue x0\<close>: it is closing, or it is open with a leave intent and the
  hide timer \<open>x0\<close> still pending.\<close>

definition closing :: "ctl \<Rightarrow> bool" where
  "closing s = ((case tip s of None \<Rightarrow> False | Some t \<Rightarrow> tip_hiding t) \<and> hoverState s = HoverNone)"

definition closingOrDue :: "nat \<times> nat \<times> timer_cb \<Rightarrow> ctl \<Rightarrow> bool" where
  "closingOrDue x0 s =
     (closing s \<or> (hoverState s = HoverOut \<and> getTemplateElement s \<and> localShow s \<and> x0 \<in> set (timeouts s)))"

text \<open>Three shapes of a controller without overlay: nothing pending; exactly one show
  timer pending, due at \<open>d\<close>, with hover as the only active trigger; no show timer
  pending.\<close>

definition idleClosed :: "ctl \<Rightarrow> bool" where
  "idleClosed s =
     (tip s = None \<and> localShow s = False \<and> timeouts s = [] \<and> hoverTimeout s = None \<and>
      hoverState s = HoverNone \<and> isWithActiveTrigger s = False)"

definition showPending :: "nat \<Rightarrow> ctl \<Rightarrow> bool" where
  "showPending d s =
     (tip s = None \<and> localShow s = False \<and>
      (\<exists>h. timeouts s = [(h, d, ShowCb)] \<and> hoverTimeout s = Some h) \<and>
      hoverState s = HoverIn \<and> enabled s \<and>
      at_click (activeTrigger s) = False \<and> at_focus (activeTrigger s) = False \<and>
      at_manual (activeTrigger s) = False)"

definition noShowPending :: "ctl \<Rightarrow> bool" where
  "noShowPending s = (tip s = None \<and> localShow s = False \<and> ShowCb \<notin> set (pendingCallbacks s))"

text \<open>
  Splitting on runs of whitespace, in the words of the description: the string is the
  tokens in order with a non-empty run of whitespace between each two neighbours; no
  token contains whitespace; only the first and the last token may be empty.
  \<open>interleave toks seps\<close> writes the tokens with the separators between them.
\<close>

definition whitespaceRun :: "string \<Rightarrow> bool" where
  "whitespaceRun r = (r \<noteq> [] \<and> list_all isSpace r)"

definition wordLike :: "string \<Rightarrow> bool" where
  "wordLike w = list_all (\<lambda>c. \<not> isSpace c) w"

fun interleave :: "string list \<Rightarrow> string list \<Rightarrow> string" where
  "interleave [] seps = []"
| "interleave [t] seps = t"
| "interleave (t # u # ts) [] = t @ interleave (u # ts) []"
| "interleave (t # u # ts) (r # rs) = t @ r @ interleave (u # ts) rs"

definition splitsOnWhitespace :: "string \<Rightarrow> string list \<Rightarrow> bool" where
  "splitsOnWhitespace s toks =
     (\<exists>seps. length toks = Suc (length seps) \<and> list_all whitespaceRun seps \<and>
             list_all wordLike toks \<and> [] \<notin> set (butlast (tl toks)) \<and>
             s = interleave toks seps)"

section \<open>Scenarios\<close>

text \<open>Hover in, out and in again, 10 ms apart, on the controller of \<open>cfg0\<close>.\<close>

definition hoverInOutIn :: ctl where
  "hoverInOutIn =
     run cfg0 sCreated
       [(env0, Elapse 0), (env0, Dom (domEvent ''mouseenter'')),
        (env0, Elapse 10), (env0, Dom (domEvent ''mouseleave'')),
        (env0, Elapse 20), (env0, Dom (domEvent ''mouseenter''))]"

text \<open>A \<open>show()\<close> whose notification is default-prevented: on the closed controller, and on
  one whose overlay is already open.\<close>

definition sShown :: ctl where
  "sShown = run cfg0 sCreated [(env0, CallShow)]"

definition cancelledShow :: "(js_error \<times> ctl) + ctl" where
  "cancelledShow = ctl_show cfg0 envPrevent sCreated"

definition cancelledShowWhileOpen :: "(js_error \<times> ctl) + ctl" where
  "cancelledShowWhileOpen = ctl_show cfg0 envPrevent sShown"

text \<open>The overlay opened and shown, then force-hidden and taken through the template's
  \<open>hide\<close> and \<open>hidden\<close> events; and the teardown body run on the open controller.\<close>

definition sOpen :: ctl where
  "sOpen = run cfg0 sShown [(env0, TemplateShow), (env0, TemplateShown)]"

definition sClosed :: ctl where
  "sClosed = run cfg0 sOpen [(env0, CallForceHide), (env0, TemplateHide), (env0, TemplateHidden)]"

definition tornDownWhileOpen :: "(js_error \<times> ctl) + ctl" where
  "tornDownWhileOpen = beforDestroy cfg0 env0 sOpen"

text \<open>A controller with a show timer pending, destroyed by the framework; and the
  teardown body called on it directly.\<close>

definition sPending :: ctl where
  "sPending = run cfg0 sCreated [(env0, Dom (domEvent ''mouseenter''))]"

definition sDestroyed :: ctl where
  "sDestroyed = run cfg0 sPending [(env0, Destroy)]"

definition tornDownPending :: "(js_error \<times> ctl) + ctl" where
  "tornDownPending = beforDestroy cfg0 env0 sPending"

text \<open>A host whose \<open>aria-describedby\<close> lists two ids separated by two spaces.\<close>

definition sTwoIds :: ctl where
  "sTwoIds = sCreated\<lparr>attrs := (\<lambda>el. if el = 1 then Some ''a  b'' else None)\<rparr>"

text \<open>A direct element reference as target.\<close>

definition cfgElem :: config where
  "cfgElem = cfg0\<lparr>target := JElem 1\<rparr>"

text \<open>A component reference as target: an object whose \<open>$el\<close> is the element.\<close>

definition cfgComp :: config where
  "cfgComp = cfg0\<lparr>target := JObj [(''$el'', JElem 1)]\<rparr>"

text \<open>Triggers \<open>"click blur"\<close> without delay; the overlay opened by a click; and a
  \<open>focusout\<close> that leaves both the host and the overlay.\<close>

definition cfgBlur :: config where
  "cfgBlur = cfg0\<lparr>triggers := TrigStr ''click blur'', delay := JNum 0\<rparr>"

definition sClickOpen :: ctl where
  "sClickOpen =
     run cfgBlur (created cfgBlur env0 (initData cfgBlur))
       [(env0, Dom (domEvent ''click'')), (env0, TemplateShow), (env0, TemplateShown)]"

section \<open>Facts about the string primitives\<close>

subsection \<open>Splitting on whitespace\<close>

lemma isSpace_blank [simp]: "isSpace (CHR '' '')"
  by (simp add: isSpace_def)

lemma digit_not_space: "(k::nat) < 10 \<Longrightarrow> \<not> isSpace (char_of (48 + k))"
  by (simp add: isSpace_def Let_def)

lemma splitWs_ne [simp]: "splitWs s \<noteq> []"
  by (induction s rule: splitWs.induct) (auto split: list.splits)

lemma splitWs_space_run: "isSpace c \<Longrightarrow> cs \<noteq> [] \<Longrightarrow> isSpace (hd cs) \<Longrightarrow> splitWs (c # cs) = splitWs cs"
  by simp

lemma splitWs_space_cut: "isSpace c \<Longrightarrow> cs = [] \<or> \<not> isSpace (hd cs) \<Longrightarrow> splitWs (c # cs) = [] # splitWs cs"
  by auto

lemma splitWs_char: "\<not> isSpace c \<Longrightarrow> splitWs (c # cs) = (c # hd (splitWs cs)) # tl (splitWs cs)"
  by (cases "splitWs cs") auto

declare splitWs.simps(2) [simp del]

lemma splitWs_nospace_all: "\<forall>tok\<in>set (splitWs s). \<forall>x\<in>set tok. \<not> isSpace x"
proof (induction s)
  case Nil
  then show ?case by simp
next
  case (Cons c cs)
  obtain t ts where sp: "splitWs cs = t # ts" by (cases "splitWs cs") auto
  show ?case
  proof (cases "isSpace c")
    case True
    then show ?thesis
      using Cons by (cases "cs \<noteq> [] \<and> isSpace (hd cs)") (auto simp: splitWs_space_run splitWs_space_cut)
  next
    case False
    then show ?thesis using Cons sp by (auto simp: splitWs_char)
  qed
qed

lemma splitWs_nospace: "tok \<in> set (splitWs s) \<Longrightarrow> x \<in> set tok \<Longrightarrow> \<not> isSpace x"
  using splitWs_nospace_all by blast

lemma splitWs_concat: "concat (splitWs s) = filter (\<lambda>c. \<not> isSpace c) s"
proof (induction s)
  case Nil
  then show ?case by simp
next
  case (Cons c cs)
  obtain t ts where sp: "splitWs cs = t # ts" by (cases "splitWs cs") auto
  show ?case
  proof (cases "isSpace c")
    case True
    then show ?thesis
      using Cons by (cases "cs \<noteq> [] \<and> isSpace (hd cs)") (auto simp: splitWs_space_run splitWs_space_cut)
  next
    case False
    then show ?thesis using Cons sp by (auto simp: splitWs_char)
  qed
qed

lemma splitWs_two: "x \<in> set s \<Longrightarrow> isSpace x \<Longrightarrow> 2 \<le> length (splitWs s)"
proof (induction s arbitrary: x)
  case Nil
  then show ?case by simp
next
  case (Cons c cs)
  have ne: "1 \<le> length (splitWs cs)" by (cases "splitWs cs") auto
  show ?case
  proof (cases "isSpace c")
    case True
    show ?thesis
    proof (cases "cs \<noteq> [] \<and> isSpace (hd cs)")
      case run: True
      then have "hd cs \<in> set cs" by simp
      with run Cons.IH have "2 \<le> length (splitWs cs)" by blast
      with True run show ?thesis by (simp add: splitWs_space_run)
    next
      case False
      with True ne show ?thesis by (simp add: splitWs_space_cut)
    qed
  next
    case False
    with Cons.prems have "x \<in> set cs" by auto
    with Cons have "2 \<le> length (splitWs cs)" by blast
    with False show ?thesis by (simp add: splitWs_char)
  qed
qed

lemma splitWs_hd_empty: "(hd (splitWs s) = []) = (s = [] \<or> isSpace (hd s))"
proof (induction s)
  case Nil
  then show ?case by simp
next
  case (Cons c cs)
  show ?case
  proof (cases "isSpace c")
    case True
    then show ?thesis
      using Cons by (cases "cs \<noteq> [] \<and> isSpace (hd cs)") (auto simp: splitWs_space_run splitWs_space_cut)
  next
    case False
    then show ?thesis by (simp add: splitWs_char)
  qed
qed

lemma splitWs_last_empty: "(last (splitWs s) = []) = (s = [] \<or> isSpace (last s))"
proof (induction s)
  case Nil
  then show ?case by simp
next
  case (Cons c cs)
  show ?case
  proof (cases "isSpace c")
    case True
    then show ?thesis
      using Cons by (cases "cs \<noteq> [] \<and> isSpace (hd cs)") (auto simp: splitWs_space_run splitWs_space_cut)
  next
    case False
    show ?thesis
    proof (cases "tl (splitWs cs) = []")
      case True
      have "\<not> (cs \<noteq> [] \<and> isSpace (last cs))"
      proof
        assume a: "cs \<noteq> [] \<and> isSpace (last cs)"
        then have "last cs \<in> set cs" by simp
        with a have "2 \<le> length (splitWs cs)" using splitWs_two by blast
        with True show False by (cases "splitWs cs") auto
      qed
      with False True show ?thesis by (auto simp: splitWs_char)
    next
      case long: False
      then have "cs \<noteq> []" by auto
      moreover have "last (tl (splitWs cs)) = last (splitWs cs)"
        using long by (cases "splitWs cs") auto
      ultimately show ?thesis using False long Cons by (simp add: splitWs_char)
    qed
  qed
qed

lemma splitWs_interior: "[] \<notin> set (butlast (tl (splitWs s)))"
proof (induction s)
  case Nil
  then show ?case by simp
next
  case (Cons c cs)
  show ?case
  proof (cases "isSpace c")
    case True
    show ?thesis
    proof (cases "cs \<noteq> [] \<and> isSpace (hd cs)")
      case run: True
      with True Cons show ?thesis by (simp add: splitWs_space_run)
    next
      case False
      then have h: "cs = [] \<or> hd (splitWs cs) \<noteq> []" using splitWs_hd_empty[of cs] by auto
      obtain t ts where sp: "splitWs cs = t # ts" by (cases "splitWs cs") auto
      have ih: "[] \<notin> set (butlast ts)" using Cons sp by simp
      have "[] \<notin> set (butlast (splitWs cs))"
      proof (cases "cs = []")
        case True
        then show ?thesis by simp
      next
        case nonempty: False
        with h sp ih show ?thesis by auto
      qed
      with True False show ?thesis by (simp add: splitWs_space_cut)
    qed
  next
    case False
    with Cons show ?thesis by (simp add: splitWs_char)
  qed
qed

lemma splitWs_no_empty:
  assumes "s \<noteq> []" "\<not> isSpace (hd s)" "\<not> isSpace (last s)"
  shows "[] \<notin> set (splitWs s)"
proof
  assume a: "[] \<in> set (splitWs s)"
  obtain t ts where sp: "splitWs s = t # ts" by (cases "splitWs s") auto
  have t: "t \<noteq> []" using splitWs_hd_empty[of s] assms sp by simp
  with a sp have "[] \<in> set ts" by auto
  moreover have "ts \<noteq> [] \<Longrightarrow> last ts \<noteq> []" using splitWs_last_empty[of s] assms sp by simp
  moreover have "[] \<notin> set (butlast ts)" using splitWs_interior[of s] sp by simp
  ultimately show False
    by (cases ts rule: rev_cases) auto
qed

subsection \<open>The ids of a whitespace-separated list\<close>

lemma describedIds_Nil [simp]: "describedIds [] = []"
  by (simp add: describedIds_def)

lemma describedIds_space [simp]: "isSpace c \<Longrightarrow> describedIds (c # cs) = describedIds cs"
  by (cases "cs \<noteq> [] \<and> isSpace (hd cs)") (auto simp: describedIds_def splitWs_space_run splitWs_space_cut)

lemma splitWs_word_app:
  "\<forall>x\<in>set t. \<not> isSpace x \<Longrightarrow> splitWs (t @ u) = (t @ hd (splitWs u)) # tl (splitWs u)"
  by (induction t) (auto simp: splitWs_char)

lemma splitWs_word: "\<forall>x\<in>set t. \<not> isSpace x \<Longrightarrow> splitWs t = [t]"
  using splitWs_word_app[of t "[]"] by simp

lemma describedIds_word: "\<forall>x\<in>set t. \<not> isSpace x \<Longrightarrow> describedIds t = (if t = [] then [] else [t])"
  by (simp add: describedIds_def splitWs_word)

lemma describedIds_split:
  "describedIds s = (if hd (splitWs s) = [] then [] else [hd (splitWs s)]) @ filter (\<lambda>t. t \<noteq> []) (tl (splitWs s))"
  by (cases "splitWs s") (auto simp: describedIds_def)

lemma splitWs_app_space:
  assumes c: "isSpace c"
  shows "hd (splitWs (a @ c # b)) = hd (splitWs a) \<and>
         filter (\<lambda>t. t \<noteq> []) (tl (splitWs (a @ c # b))) = filter (\<lambda>t. t \<noteq> []) (tl (splitWs a)) @ describedIds b"
proof (induction a)
  case Nil
  have h: "hd (splitWs (c # b)) = []" using splitWs_hd_empty[of "c # b"] c by simp
  have "filter (\<lambda>t. t \<noteq> []) (tl (splitWs (c # b))) = describedIds (c # b)"
    using describedIds_split[of "c # b"] h by simp
  with h c show ?case by simp
next
  case (Cons x xs)
  let ?ys = "xs @ c # b"
  show ?case
  proof (cases "isSpace x")
    case True
    have full: "describedIds ?ys = describedIds xs @ describedIds b"
      using Cons describedIds_split[of ?ys] describedIds_split[of xs] by simp
    show ?thesis
    proof (cases "xs = []")
      case True
      with \<open>isSpace x\<close> c Cons show ?thesis by (simp add: splitWs_space_run splitWs_space_cut)
    next
      case False
      then have hd_eq: "hd ?ys = hd xs" by simp
      show ?thesis
      proof (cases "isSpace (hd xs)")
        case True
        with \<open>isSpace x\<close> False hd_eq Cons show ?thesis by (simp add: splitWs_space_run)
      next
        case nsp: False
        have l: "splitWs (x # ?ys) = [] # splitWs ?ys"
          using \<open>isSpace x\<close> nsp hd_eq by (simp add: splitWs_space_cut)
        have r: "splitWs (x # xs) = [] # splitWs xs"
          using \<open>isSpace x\<close> nsp by (simp add: splitWs_space_cut)
        show ?thesis using l r full by (simp add: describedIds_def)
      qed
    qed
  next
    case False
    with Cons show ?thesis by (simp add: splitWs_char)
  qed
qed

lemma describedIds_app_space:
  "isSpace c \<Longrightarrow> describedIds (a @ c # b) = describedIds a @ describedIds b"
  using splitWs_app_space[of c a b] describedIds_split[of "a @ c # b"] describedIds_split[of a] by simp

lemma describedIds_joinSp:
  "\<forall>t\<in>set ts. \<forall>x\<in>set t. \<not> isSpace x \<Longrightarrow> describedIds (joinSp ts) = filter (\<lambda>t. t \<noteq> []) ts"
  by (induction ts rule: joinSp.induct) (simp_all add: describedIds_word describedIds_app_space)

lemma describedIds_dropWhile: "describedIds (dropWhile isSpace s) = describedIds s"
  by (induction s) simp_all

lemma describedIds_spaces: "\<forall>x\<in>set sp. isSpace x \<Longrightarrow> describedIds sp = []"
  by (induction sp) simp_all

lemma describedIds_trailing: "\<forall>x\<in>set sp. isSpace x \<Longrightarrow> describedIds (a @ sp) = describedIds a"
  by (cases sp) (simp_all add: describedIds_app_space describedIds_spaces)

lemma describedIds_trim: "describedIds (trim s) = describedIds s"
proof -
  let ?s' = "dropWhile isSpace s"
  have "?s' = rev (rev ?s')" by simp
  also have "\<dots> = rev (takeWhile isSpace (rev ?s') @ dropWhile isSpace (rev ?s'))"
    by (simp only: takeWhile_dropWhile_id)
  also have "\<dots> = trim s @ rev (takeWhile isSpace (rev ?s'))"
    by (simp only: rev_append trim_def)
  finally have split: "?s' = trim s @ rev (takeWhile isSpace (rev ?s'))" .
  have "\<forall>x\<in>set (rev (takeWhile isSpace (rev ?s'))). isSpace x"
    by (auto dest: set_takeWhileD)
  then have "describedIds (trim s @ rev (takeWhile isSpace (rev ?s'))) = describedIds (trim s)"
    by (rule describedIds_trailing)
  with split have "describedIds ?s' = describedIds (trim s)" by simp
  then show ?thesis by (simp add: describedIds_dropWhile)
qed

lemma trim_ends: "trim s \<noteq> [] \<Longrightarrow> \<not> isSpace (hd (trim s)) \<and> \<not> isSpace (last (trim s))"
proof -
  assume ne: "trim s \<noteq> []"
  let ?s' = "dropWhile isSpace s"
  let ?X = "dropWhile isSpace (rev ?s')"
  from ne have X: "?X \<noteq> []" by (simp add: trim_def)
  have s': "?s' \<noteq> []"
  proof
    assume a: "?s' = []"
    have "?X = []" unfolding a by simp
    with X show False by simp
  qed
  have "last (trim s) = hd ?X" using X by (simp add: trim_def last_rev)
  moreover have "\<not> isSpace (hd ?X)" using X hd_dropWhile by blast
  moreover have "hd (trim s) = last ?X" using X by (simp add: trim_def hd_rev)
  moreover have "last ?X = last (rev ?s')" using X by (metis last_appendR takeWhile_dropWhile_id)
  moreover have "last (rev ?s') = hd ?s'" using s' by (simp add: last_rev)
  moreover have "\<not> isSpace (hd ?s')" using s' hd_dropWhile by blast
  ultimately show ?thesis by simp
qed

lemma trim_id: "s = [] \<or> (\<not> isSpace (hd s) \<and> \<not> isSpace (last s)) \<Longrightarrow> trim s = s"
proof (cases "s = []")
  case True
  then show ?thesis by (simp add: trim_def)
next
  case False
  assume "s = [] \<or> (\<not> isSpace (hd s) \<and> \<not> isSpace (last s))"
  with False have h: "\<not> isSpace (hd s)" and l: "\<not> isSpace (last s)" by auto
  from False h have a: "dropWhile isSpace s = s" by (cases s) auto
  from False l have b: "dropWhile isSpace (rev s) = rev s" by (cases "rev s") (auto simp: hd_rev)
  show ?thesis by (simp add: trim_def a b)
qed

lemma joinSp_ends:
  "ts \<noteq> [] \<Longrightarrow> \<forall>t\<in>set ts. t \<noteq> [] \<Longrightarrow>
     joinSp ts \<noteq> [] \<and> hd (joinSp ts) = hd (hd ts) \<and> last (joinSp ts) = last (last ts)"
  by (induction ts rule: joinSp.induct) auto

lemma trim_joinSp:
  assumes "\<forall>t\<in>set ts. t \<noteq> [] \<and> (\<forall>x\<in>set t. \<not> isSpace x)"
  shows "trim (joinSp ts) = joinSp ts"
proof (cases "ts = []")
  case True
  then show ?thesis by (simp add: trim_def)
next
  case False
  with assms have e: "joinSp ts \<noteq> [] \<and> hd (joinSp ts) = hd (hd ts) \<and> last (joinSp ts) = last (last ts)"
    using joinSp_ends by blast
  have "hd ts \<in> set ts" "last ts \<in> set ts" using False by simp_all
  with assms have "hd ts \<noteq> [] \<and> (\<forall>x\<in>set (hd ts). \<not> isSpace x)" "last ts \<noteq> [] \<and> (\<forall>x\<in>set (last ts). \<not> isSpace x)"
    by blast+
  then have "\<not> isSpace (hd (hd ts))" "\<not> isSpace (last (last ts))" by simp_all
  with e show ?thesis by (simp add: trim_id)
qed

lemma describedIds_tokens: "t \<in> set (describedIds s) \<Longrightarrow> t \<noteq> [] \<and> (\<forall>x\<in>set t. \<not> isSpace x)"
  using splitWs_nospace by (auto simp: describedIds_def)

lemma addedDesc_ids:
  assumes cid: "cid \<noteq> []" "\<forall>x\<in>set cid. \<not> isSpace x"
  shows "splitWs (addedDesc cid d) = describedIds d @ [cid]"
proof -
  let ?toks = "splitWs d @ [cid]"
  have free: "\<forall>t\<in>set ?toks. \<forall>x\<in>set t. \<not> isSpace x"
    using splitWs_nospace cid by auto
  have "describedIds (addedDesc cid d) = describedIds (joinSp ?toks)"
    by (simp only: addedDesc_def describedIds_trim)
  also have "\<dots> = filter (\<lambda>t. t \<noteq> []) ?toks"
    by (rule describedIds_joinSp[OF free])
  also have "\<dots> = describedIds d @ [cid]"
    using cid(1) by (simp add: describedIds_def)
  finally have ids: "describedIds (addedDesc cid d) = describedIds d @ [cid]" .
  then have ne: "addedDesc cid d \<noteq> []" by auto
  then have "\<not> isSpace (hd (addedDesc cid d)) \<and> \<not> isSpace (last (addedDesc cid d))"
    unfolding addedDesc_def by (rule trim_ends)
  with ne have "[] \<notin> set (splitWs (addedDesc cid d))" by (simp add: splitWs_no_empty)
  then have "describedIds (addedDesc cid d) = splitWs (addedDesc cid d)"
    by (auto simp: describedIds_def filter_id_conv)
  with ids show ?thesis by simp
qed

lemma removedDesc_after_added:
  assumes cid: "cid \<noteq> []" "\<forall>x\<in>set cid. \<not> isSpace x" and fresh: "cid \<notin> set (describedIds d)"
  shows "removedDesc cid (addedDesc cid d) = joinSp (describedIds d)"
proof -
  have "filter (\<lambda>t. t \<noteq> cid) (describedIds d @ [cid]) = describedIds d"
    using fresh by (auto simp: filter_id_conv)
  then have "removedDesc cid (addedDesc cid d) = trim (joinSp (describedIds d))"
    by (simp add: removedDesc_def addedDesc_ids[OF cid(1) cid(2)])
  moreover have "trim (joinSp (describedIds d)) = joinSp (describedIds d)"
    using describedIds_tokens by (intro trim_joinSp) blast
  ultimately show ?thesis by simp
qed

lemma joinSp_empty_iff: "\<forall>t\<in>set ts. t \<noteq> [] \<Longrightarrow> (joinSp ts = []) = (ts = [])"
  using joinSp_ends[of ts] by (cases "ts = []") auto

subsection \<open>Lower-casing and the computed id\<close>

lemma toLowerChar_idem: "toLowerChar (toLowerChar c) = toLowerChar c"
  by (simp add: toLowerChar_def Let_def)

lemma digitsOf_nospace: "x \<in> set (digitsOf fuel n) \<Longrightarrow> \<not> isSpace x"
proof (induction fuel n rule: digitsOf.induct)
  case (1 n)
  then show ?case by simp
next
  case (2 fuel n)
  have "n mod 10 < 10" by simp
  then have m: "\<not> isSpace (char_of (48 + n mod 10))" by (rule digit_not_space)
  show ?case
  proof (cases "n < 10")
    case True
    with 2 digit_not_space[of n] show ?thesis by simp
  next
    case False
    with 2 m show ?thesis by auto
  qed
qed

lemma computedId_nonempty: "computedId cfg \<noteq> []"
  by (simp add: computedId_def)

lemma computedId_nospace:
  "\<forall>x\<in>set (templateType cfg). \<not> isSpace x \<Longrightarrow> \<forall>x\<in>set (computedId cfg). \<not> isSpace x"
  by (auto simp: computedId_def natToString_def isSpace_def dest: digitsOf_nospace)

subsection \<open>The delay normaliser on strings and on invalid values\<close>

lemma computedDelay_string_nonneg:
  "0 \<le> delay_show (computedDelay (JStr s)) \<and> 0 \<le> delay_hide (computedDelay (JStr s))"
  by (simp add: computedDelay_def Let_def)

lemma computedDelay_invalid:
  "\<not> isNumber d \<Longrightarrow> \<not> isString d \<Longrightarrow> \<not> isPlainObject d \<Longrightarrow>
     computedDelay d = \<lparr>delay_show = 0, delay_hide = 0\<rparr>"
  by (simp add: computedDelay_def)

subsection \<open>The tokens of a string are determined by its whitespace runs\<close>

lemma interleave_cons_char: "interleave ((c # t) # ts) seps = c # interleave (t # ts) seps"
  by (cases ts; cases seps) simp_all

lemma splitWs_after_run:
  "whitespaceRun r \<Longrightarrow> rest = [] \<or> \<not> isSpace (hd rest) \<Longrightarrow> splitWs (r @ rest) = [] # splitWs rest"
proof (induction r)
  case Nil
  then show ?case by (simp add: whitespaceRun_def)
next
  case (Cons c r)
  from Cons.prems have c: "isSpace c" and r: "list_all isSpace r" by (simp_all add: whitespaceRun_def)
  show ?case
  proof (cases "r = []")
    case True
    with c Cons.prems(2) show ?thesis by (simp add: splitWs_space_cut)
  next
    case False
    with r have wr: "whitespaceRun r" by (simp add: whitespaceRun_def)
    from False r have "isSpace (hd (r @ rest))" by (cases r) simp_all
    with c False have "splitWs ((c # r) @ rest) = splitWs (r @ rest)" by (simp add: splitWs_space_run)
    with Cons.IH[OF wr Cons.prems(2)] show ?thesis by simp
  qed
qed

lemma wordLike_iff: "wordLike w = (\<forall>x\<in>set w. \<not> isSpace x)"
  by (simp add: wordLike_def list_all_iff)

lemma splitsOnWhitespace_unique_aux:
  "length toks = Suc (length seps) \<Longrightarrow> list_all whitespaceRun seps \<Longrightarrow> list_all wordLike toks \<Longrightarrow>
   [] \<notin> set (butlast (tl toks)) \<Longrightarrow> splitWs (interleave toks seps) = toks"
proof (induction toks seps rule: interleave.induct)
  case (1 seps)
  then show ?case by simp
next
  case (2 t seps)
  then show ?case by (simp add: splitWs_word wordLike_iff)
next
  case (3 t u ts)
  then show ?case by simp
next
  case (4 t u ts r rs)
  let ?rest = "interleave (u # ts) rs"
  from 4(4) have wt: "\<forall>x\<in>set t. \<not> isSpace x" and wu: "\<forall>x\<in>set u. \<not> isSpace x"
    by (simp_all add: wordLike_iff)
  from 4(3) have wr: "whitespaceRun r" by simp
  have start: "?rest = [] \<or> \<not> isSpace (hd ?rest)"
  proof (cases ts)
    case Nil
    with wu show ?thesis by (cases u) simp_all
  next
    case (Cons v vs)
    with 4(5) have "u \<noteq> []" by auto
    with wu Cons show ?thesis by (cases rs; cases u) simp_all
  qed
  have ih: "splitWs ?rest = u # ts"
  proof (rule 4(1))
    show "length (u # ts) = Suc (length rs)" using 4(2) by simp
    show "list_all whitespaceRun rs" using 4(3) by simp
    show "list_all wordLike (u # ts)" using 4(4) by simp
    show "[] \<notin> set (butlast (tl (u # ts)))" using 4(5) by (cases ts) auto
  qed
  have "splitWs (interleave (t # u # ts) (r # rs)) = (t @ hd (splitWs (r @ ?rest))) # tl (splitWs (r @ ?rest))"
    using splitWs_word_app[OF wt, of "r @ ?rest"] by simp
  also have "\<dots> = t # splitWs ?rest" using splitWs_after_run[OF wr start] by simp
  finally show ?case using ih by simp
qed

lemma splitWs_seps:
  "\<exists>seps. length (splitWs s) = Suc (length seps) \<and> list_all whitespaceRun seps \<and>
          s = interleave (splitWs s) seps"
proof (induction s)
  case Nil
  have "length (splitWs []) = Suc (length ([]::string list)) \<and> list_all whitespaceRun [] \<and>
        [] = interleave (splitWs []) []" by simp
  then show ?case by blast
next
  case (Cons c cs)
  from Cons obtain seps where seps: "length (splitWs cs) = Suc (length seps)"
      "list_all whitespaceRun seps" "cs = interleave (splitWs cs) seps" by blast
  obtain t ts where sp: "splitWs cs = t # ts" by (cases "splitWs cs") auto
  show ?case
  proof (cases "isSpace c")
    case False
    have "c # cs = interleave (splitWs (c # cs)) seps"
      using False sp seps(3) by (simp add: splitWs_char interleave_cons_char)
    moreover have "length (splitWs (c # cs)) = Suc (length seps)"
      using False sp seps(1) by (simp add: splitWs_char)
    ultimately show ?thesis using seps(2) by blast
  next
    case True
    show ?thesis
    proof (cases "cs \<noteq> [] \<and> isSpace (hd cs)")
      case run: True
      then have eq: "splitWs (c # cs) = splitWs cs" using True by (simp add: splitWs_space_run)
      from run have "hd cs \<in> set cs" by simp
      with run have two: "2 \<le> length (splitWs cs)" using splitWs_two by blast
      have he: "t = []" using splitWs_hd_empty[of cs] run sp by simp
      from two sp obtain u us where ts: "ts = u # us" by (cases ts) auto
      from seps(1) sp ts obtain r rs where rs: "seps = r # rs" by (cases seps) auto
      have "c # cs = interleave (splitWs (c # cs)) ((c # r) # rs)"
        using seps(3) sp ts rs he eq by simp
      moreover have "list_all whitespaceRun ((c # r) # rs)"
        using seps(2) rs True by (simp add: whitespaceRun_def)
      moreover have "length (splitWs (c # cs)) = Suc (length ((c # r) # rs))"
        using seps(1) rs eq by simp
      ultimately show ?thesis by blast
    next
      case False
      then have eq: "splitWs (c # cs) = [] # splitWs cs" using True by (simp add: splitWs_space_cut)
      have "c # cs = interleave (splitWs (c # cs)) ([c] # seps)"
        using seps(3) sp eq by simp
      moreover have "list_all whitespaceRun ([c] # seps)"
        using seps(2) True by (simp add: whitespaceRun_def)
      moreover have "length (splitWs (c # cs)) = Suc (length ([c] # seps))"
        using seps(1) eq by simp
      ultimately show ?thesis by blast
    qed
  qed
qed

lemma splitsOnWhitespace_iff: "splitsOnWhitespace s toks = (toks = splitWs s)"
proof
  assume "splitsOnWhitespace s toks"
  then show "toks = splitWs s"
    using splitsOnWhitespace_unique_aux by (auto simp: splitsOnWhitespace_def)
next
  assume eq: "toks = splitWs s"
  from splitWs_seps[of s] obtain seps where seps: "length (splitWs s) = Suc (length seps)"
      "list_all whitespaceRun seps" "s = interleave (splitWs s) seps" by blast
  have "list_all wordLike (splitWs s)"
    using splitWs_nospace_all[of s] by (simp add: list_all_iff wordLike_iff)
  moreover have "[] \<notin> set (butlast (tl (splitWs s)))" by (rule splitWs_interior)
  ultimately show "splitsOnWhitespace s toks"
    unfolding splitsOnWhitespace_def eq using seps by blast
qed

lemma toLowerChar_nospace: "\<not> isSpace c \<Longrightarrow> \<not> isSpace (toLowerChar c)"
  by (auto simp: toLowerChar_def isSpace_def Let_def)

lemma toLowerChar_blank [simp]: "toLowerChar (CHR '' '') = CHR '' ''"
  by (simp add: toLowerChar_def)

lemma toLowerCase_joinSp: "toLowerCase (joinSp ws) = joinSp (map toLowerCase ws)"
  by (induction ws rule: joinSp.induct) (simp_all add: toLowerCase_def)

lemma splitWs_joinSp_words:
  assumes "ws \<noteq> []" "\<forall>w\<in>set ws. w \<noteq> [] \<and> (\<forall>x\<in>set w. \<not> isSpace x)"
  shows "splitWs (joinSp ws) = ws"
proof -
  have e: "joinSp ws \<noteq> [] \<and> hd (joinSp ws) = hd (hd ws) \<and> last (joinSp ws) = last (last ws)"
    using assms joinSp_ends by blast
  have "hd ws \<in> set ws" "last ws \<in> set ws" using assms(1) by simp_all
  with assms(2) have "\<not> isSpace (hd (hd ws))" "\<not> isSpace (last (last ws))" by auto
  with e have "[] \<notin> set (splitWs (joinSp ws))" by (simp add: splitWs_no_empty)
  then have "filter (\<lambda>t. t \<noteq> []) (splitWs (joinSp ws)) = splitWs (joinSp ws)"
    by (auto simp: filter_id_conv)
  then have "splitWs (joinSp ws) = describedIds (joinSp ws)"
    by (simp add: describedIds_def)
  also have "\<dots> = filter (\<lambda>t. t \<noteq> []) ws" using assms(2) by (intro describedIds_joinSp) blast
  also have "\<dots> = ws" using assms(2) by (auto simp: filter_id_conv)
  finally show ?thesis .
qed

lemma triggersJoined_string: "triggersJoined (TrigStr s) = toLowerCase s"
  by (simp add: triggersJoined_def toLowerCase_def)

lemma triggersJoined_array:
  "triggersJoined (TrigArr vs) = toLowerCase (joinSp (map toString (filter truthy vs)))"
  by (simp add: triggersJoined_def)

lemma computedTriggers_words:
  assumes "ws \<noteq> []" "\<forall>w\<in>set ws. w \<noteq> [] \<and> (\<forall>x\<in>set w. \<not> isSpace x)"
  shows "computedTriggers (TrigStr (joinSp ws)) = map toLowerCase ws"
    and "computedTriggers (TrigArr (map JStr ws)) = map toLowerCase ws"
proof -
  have w': "map toLowerCase ws \<noteq> []"
       "\<forall>w\<in>set (map toLowerCase ws). w \<noteq> [] \<and> (\<forall>x\<in>set w. \<not> isSpace x)"
    using assms by (auto simp: toLowerCase_def toLowerChar_nospace)
  have s: "splitWs (joinSp (map toLowerCase ws)) = map toLowerCase ws"
    using w' by (rule splitWs_joinSp_words)
  show "computedTriggers (TrigStr (joinSp ws)) = map toLowerCase ws"
    by (simp add: computedTriggers_def triggersJoined_string toLowerCase_joinSp s)
  have f: "filter truthy (map JStr ws) = map JStr ws" using assms(2) by (induction ws) auto
  have m: "map toString (map JStr ws) = ws" by (induction ws) auto
  have "triggersJoined (TrigArr (map JStr ws)) = toLowerCase (joinSp ws)"
    by (simp only: triggersJoined_array f m)
  then show "computedTriggers (TrigArr (map JStr ws)) = map toLowerCase ws"
    by (simp add: computedTriggers_def toLowerCase_joinSp s)
qed

section \<open>Facts about the controller\<close>

lemma attrOrEmpty_simps [simp]: "attrOrEmpty None = []" "attrOrEmpty (Some v) = v"
  by (simp_all add: attrOrEmpty_def)

lemma vueDestroy_noop: "vueDestroy cfg e s = Inr s"
  by (simp add: vueDestroy_def callHook_def componentHooks_def)

lemma getTarget_string_only:
  "getTarget cfg e = Some el \<Longrightarrow>
     \<exists>i. elOrSelf (target cfg) JNull = JStr i \<and> getElementById e (stripHash (stripHash i)) = Some el"
  by (cases "elOrSelf (target cfg) JNull") (auto simp: getTarget_def getById_def split: option.splits)

subsection \<open>What the listener set-up leaves alone\<close>

lemma settle_Inr [simp]: "settle (Inr s) = s"
  by (simp add: settle_def)

lemma stateOf_simps [simp]: "stateOf (Inr s) = s" "stateOf (Inl (err, s)) = s"
  by (simp_all add: stateOf_def)

lemma listenTrigger_frame: "withoutListeners (listenTrigger el s t) = withoutListeners s"
  by (simp add: listenTrigger_def eventOn_def withoutListeners_def)

lemma foldl_listenTrigger_frame: "withoutListeners (foldl (listenTrigger el) s ts) = withoutListeners s"
  by (induction ts arbitrary: s) (simp_all add: listenTrigger_frame)

lemma setRootListener_frame: "withoutListeners (setRootListener cfg on s) = withoutListeners s"
  by (simp add: setRootListener_def rootSet_def rootOn_def rootOff_def withoutListeners_def)

lemma listen_frame: "withoutListeners (listen cfg e s) = withoutListeners s"
  by (simp add: listen_def foldl_listenTrigger_frame setRootListener_frame split: option.splits)

lemma unListen_frame: "withoutListeners (unListen cfg e s) = withoutListeners s"
  by (simp add: unListen_def setRootListener_frame eventOff_def split: option.splits)
     (simp add: withoutListeners_def)

lemma frame_fields:
  assumes "withoutListeners a = withoutListeners b"
  shows "tip a = tip b" "localShow a = localShow b" "timeouts a = timeouts b"
    "hoverTimeout a = hoverTimeout b" "hoverState a = hoverState b"
    "activeTrigger a = activeTrigger b" "now a = now b" "nextHandle a = nextHandle b"
    "enabled a = enabled b" "intervals a = intervals b"
    "us_hoverTimeout a = us_hoverTimeout b" "us_visibleInterval a = us_visibleInterval b"
proof -
  have "tip (withoutListeners a) = tip (withoutListeners b)" using assms by simp
  then show "tip a = tip b" by (simp add: withoutListeners_def)
  have "localShow (withoutListeners a) = localShow (withoutListeners b)" using assms by simp
  then show "localShow a = localShow b" by (simp add: withoutListeners_def)
  have "timeouts (withoutListeners a) = timeouts (withoutListeners b)" using assms by simp
  then show "timeouts a = timeouts b" by (simp add: withoutListeners_def)
  have "hoverTimeout (withoutListeners a) = hoverTimeout (withoutListeners b)" using assms by simp
  then show "hoverTimeout a = hoverTimeout b" by (simp add: withoutListeners_def)
  have "hoverState (withoutListeners a) = hoverState (withoutListeners b)" using assms by simp
  then show "hoverState a = hoverState b" by (simp add: withoutListeners_def)
  have "activeTrigger (withoutListeners a) = activeTrigger (withoutListeners b)" using assms by simp
  then show "activeTrigger a = activeTrigger b" by (simp add: withoutListeners_def)
  have "now (withoutListeners a) = now (withoutListeners b)" using assms by simp
  then show "now a = now b" by (simp add: withoutListeners_def)
  have "nextHandle (withoutListeners a) = nextHandle (withoutListeners b)" using assms by simp
  then show "nextHandle a = nextHandle b" by (simp add: withoutListeners_def)
  have "enabled (withoutListeners a) = enabled (withoutListeners b)" using assms by simp
  then show "enabled a = enabled b" by (simp add: withoutListeners_def)
  have "intervals (withoutListeners a) = intervals (withoutListeners b)" using assms by simp
  then show "intervals a = intervals b" by (simp add: withoutListeners_def)
  have "us_hoverTimeout (withoutListeners a) = us_hoverTimeout (withoutListeners b)" using assms by simp
  then show "us_hoverTimeout a = us_hoverTimeout b" by (simp add: withoutListeners_def)
  have "us_visibleInterval (withoutListeners a) = us_visibleInterval (withoutListeners b)" using assms by simp
  then show "us_visibleInterval a = us_visibleInterval b" by (simp add: withoutListeners_def)
qed

lemmas listen_fields [simp] = frame_fields[OF listen_frame]
lemmas unListen_fields [simp] = frame_fields[OF unListen_frame]

subsection \<open>The manual flag is never set\<close>

lemma activeTrigger_clearTimeout [simp]: "activeTrigger (clearTimeout h s) = activeTrigger s"
  by (simp add: clearTimeout_def split: option.splits)

lemma activeTrigger_setWhileOpenListeners [simp]:
  "activeTrigger (setWhileOpenListeners cfg e on s) = activeTrigger s"
  by (simp add: setWhileOpenListeners_def setOnTouchStartListener_def visibleCheck_def Let_def
        setInterval_def clearInterval_def setDropdownListener_def setModalListener_def
        rootSet_def rootOn_def rootOff_def split: option.splits)

lemma activeTrigger_emitEvent [simp]: "activeTrigger (emitEvent n s) = activeTrigger s"
  by (simp add: emitEvent_def)

lemma activeTrigger_hideTemplate [simp]: "activeTrigger (hideTemplate s) = activeTrigger s"
  by (simp add: hideTemplate_def split: option.splits)

lemma activeTrigger_addAria [simp]: "activeTrigger (addAriaDescribedby cfg e s) = activeTrigger s"
  by (simp add: addAriaDescribedby_def Let_def setAttr_def split: option.splits)

lemma activeTrigger_removeAria [simp]: "activeTrigger (removeAriaDescribedby cfg e s) = activeTrigger s"
  by (simp add: removeAriaDescribedby_def Let_def setAttr_def removeAttr_def split: option.splits)

lemma manualOff_setActive: "manualOff s \<Longrightarrow> manualOff (setActive k v s)"
  by (simp add: manualOff_def setActive_def)

lemma manualOff_clearActiveTriggers [simp]: "manualOff (clearActiveTriggers s)"
  by (simp add: manualOff_def clearActiveTriggers_def)

lemma manualOff_destroyTemplate [simp]: "manualOff (destroyTemplate cfg e s)"
  by (simp add: manualOff_def destroyTemplate_def Let_def clearActiveTriggers_def)

lemma manualOff_hide: "manualOff s \<Longrightarrow> manualOff (hide cfg e f s)"
  by (simp add: hide_def Let_def) (simp add: manualOff_def clearActiveTriggers_def)

lemma manualOff_forceHide: "manualOff s \<Longrightarrow> manualOff (forceHide cfg e s)"
  by (simp add: forceHide_def Let_def manualOff_hide)

lemma manualOff_ctl_show: "manualOff s \<Longrightarrow> manualOff (stateOf (ctl_show cfg e s))"
  by (simp add: ctl_show_def Let_def destroyTip_def createTemplateAndShow_def fixTitle_def
        split: option.splits) (simp add: manualOff_def)

lemma manualOff_enter_tail:
  "manualOff s1 \<Longrightarrow>
   manualOff (stateOf
     (if localShow s1 \<or> hoverState s1 = HoverIn then Inr (s1\<lparr>hoverState := HoverIn\<rparr>)
      else if delay_show (computedDelay (delay cfg)) = 0
           then ctl_show cfg e ((clearTimeout (hoverTimeout s1) s1)\<lparr>hoverState := HoverIn\<rparr>)
           else Inr ((setTimeout ShowCb (delay_show (computedDelay (delay cfg)))
                        ((clearTimeout (hoverTimeout s1) s1)\<lparr>hoverState := HoverIn\<rparr>))
                      \<lparr>hoverTimeout := Some (nextHandle ((clearTimeout (hoverTimeout s1) s1)\<lparr>hoverState := HoverIn\<rparr>))\<rparr>)))"
proof -
  assume m1: "manualOff s1"
  then have m2: "manualOff ((clearTimeout (hoverTimeout s1) s1)\<lparr>hoverState := HoverIn\<rparr>)"
    by (simp add: manualOff_def)
  from m1 m2 manualOff_ctl_show[OF m2, of cfg e] show ?thesis
    by (simp add: manualOff_def setTimeout_def)
qed

lemma manualOff_enter: "manualOff s \<Longrightarrow> manualOff (stateOf (enter cfg e ev s))"
proof (cases ev)
  case None
  assume "manualOff s"
  then show ?thesis
    unfolding enter_def Let_def None option.case by (rule manualOff_enter_tail)
next
  case (Some v)
  assume "manualOff s"
  then have "manualOff (setActive (if ev_type v = ''focusin'' then ''focus'' else ''hover'') True s)"
    by (rule manualOff_setActive)
  then show ?thesis
    unfolding enter_def Let_def Some option.case by (rule manualOff_enter_tail)
qed

lemma manualOff_leave_tail:
  "manualOff s1 \<Longrightarrow>
   manualOff
     (if isWithActiveTrigger s1 then s1
      else if delay_hide (computedDelay (delay cfg)) = 0
           then hide cfg e False ((clearTimeout (hoverTimeout s1) s1)\<lparr>hoverState := HoverOut\<rparr>)
           else (setTimeout HideCb (delay_hide (computedDelay (delay cfg)))
                   ((clearTimeout (hoverTimeout s1) s1)\<lparr>hoverState := HoverOut\<rparr>))
                 \<lparr>ds_hoverTimeout := Some (nextHandle ((clearTimeout (hoverTimeout s1) s1)\<lparr>hoverState := HoverOut\<rparr>))\<rparr>)"
proof -
  assume m1: "manualOff s1"
  then have m2: "manualOff ((clearTimeout (hoverTimeout s1) s1)\<lparr>hoverState := HoverOut\<rparr>)"
    by (simp add: manualOff_def)
  from m1 m2 manualOff_hide[OF m2, of cfg e False] show ?thesis
    by (simp add: manualOff_def setTimeout_def)
qed

lemma manualOff_leave: "manualOff s \<Longrightarrow> manualOff (leave cfg e ev s)"
proof (cases ev)
  case None
  assume "manualOff s"
  then show ?thesis
    unfolding leave_def Let_def None option.case by (rule manualOff_leave_tail)
next
  case (Some v)
  assume m: "manualOff s"
  have "manualOff (if ev_type v = ''focusout'' \<and> ''blur'' \<in> set (computedTriggers (triggers cfg))
                   then setActive ''hover'' False (setActive ''click'' False
                          (setActive (if ev_type v = ''focusout'' then ''focus'' else ''hover'') False s))
                   else setActive (if ev_type v = ''focusout'' then ''focus'' else ''hover'') False s)"
    using m by (simp add: manualOff_setActive)
  then show ?thesis
    unfolding leave_def Let_def Some option.case by (rule manualOff_leave_tail)
qed

lemma manualOff_click: "manualOff s \<Longrightarrow> manualOff (stateOf (click cfg e s))"
  by (simp add: click_def Let_def manualOff_enter manualOff_leave manualOff_setActive)

lemma manualOff_toggle: "manualOff s \<Longrightarrow> manualOff (stateOf (toggle cfg e s))"
  by (simp add: toggle_def manualOff_enter manualOff_leave)

lemma manualOff_handleEvent: "manualOff s \<Longrightarrow> manualOff (stateOf (handleEvent cfg e ev s))"
  by (simp add: handleEvent_def Let_def manualOff_enter manualOff_leave manualOff_click
        split: option.splits)

lemma manualOff_settle [simp]: "manualOff (settle r) = manualOff (stateOf r)"
  by (cases r) (auto simp: settle_def manualOff_def)

lemma manualOff_onTemplate:
  "manualOff s \<Longrightarrow> manualOff (onTemplateShow cfg e s)"
  "manualOff s \<Longrightarrow> manualOff (onTemplateShown cfg e s)"
  "manualOff s \<Longrightarrow> manualOff (onTemplateHide cfg e s)"
  "manualOff (onTemplateHidden cfg e s)"
proof -
  show "manualOff s \<Longrightarrow> manualOff (onTemplateShow cfg e s)"
    by (simp add: onTemplateShow_def manualOff_def)
  show "manualOff s \<Longrightarrow> manualOff (onTemplateHide cfg e s)"
    by (simp add: onTemplateHide_def manualOff_def)
  show "manualOff (onTemplateHidden cfg e s)"
    using manualOff_destroyTemplate[of cfg e "restoreTitle (removeAriaDescribedby cfg e s)"]
    by (simp add: onTemplateHidden_def manualOff_def)
  show "manualOff s \<Longrightarrow> manualOff (onTemplateShown cfg e s)"
  proof -
    assume m: "manualOff s"
    then have m1: "manualOff (s\<lparr>hoverState := HoverNone\<rparr>)" by (simp add: manualOff_def)
    from manualOff_leave[OF m1, of cfg e None] m1 show ?thesis
      by (simp add: onTemplateShown_def Let_def manualOff_def)
  qed
qed

lemma manualOff_runTimeoutCb: "manualOff s \<Longrightarrow> manualOff (stateOf (runTimeoutCb cfg e cb s))"
  by (cases cb) (simp_all add: runTimeoutCb_def manualOff_ctl_show manualOff_hide)

lemma manualOff_fireTimeout: "manualOff s \<Longrightarrow> manualOff (fireTimeout cfg e x s)"
proof -
  assume m: "manualOff s"
  then have "manualOff (s\<lparr>timeouts := removeAll x (timeouts s), now := max (now s) (fst (snd x))\<rparr>)"
    by (simp add: manualOff_def)
  with m show ?thesis by (simp add: fireTimeout_def manualOff_runTimeoutCb)
qed

lemma manualOff_runTimeouts: "manualOff s \<Longrightarrow> manualOff (runTimeouts cfg e xs s)"
  by (induction xs arbitrary: s) (simp_all add: manualOff_fireTimeout)

lemma manualOff_advance: "manualOff s \<Longrightarrow> manualOff (advance cfg e t s)"
  using manualOff_runTimeouts[of s cfg e "dueTimeouts t s"]
  by (simp add: advance_def Let_def manualOff_def)

lemma manualOff_pollTick: "manualOff s \<Longrightarrow> manualOff (pollTick cfg e h s)"
  by (simp add: pollTick_def visibleCheckCb_def manualOff_forceHide)

lemma manualOff_enable_disable: "manualOff s \<Longrightarrow> manualOff (enable s)" "manualOff s \<Longrightarrow> manualOff (disable s)"
  by (simp_all add: enable_def disable_def manualOff_def)

lemma manualOff_commands:
  "manualOff s \<Longrightarrow> manualOff (doHide cfg e i s)"
  "manualOff s \<Longrightarrow> manualOff (stateOf (doShow cfg e i s))"
  "manualOff s \<Longrightarrow> manualOff (doDisable cfg e i s)"
  "manualOff s \<Longrightarrow> manualOff (doEnable cfg e i s)"
  by (simp_all add: doHide_def doShow_def doDisable_def doEnable_def manualOff_forceHide
        manualOff_ctl_show manualOff_enable_disable)

lemma manualOff_step: "manualOff s \<Longrightarrow> manualOff (step cfg s x)"
  by (cases "snd x")
     (simp_all add: step_def Let_def manualOff_handleEvent manualOff_toggle manualOff_ctl_show
        manualOff_hide manualOff_forceHide manualOff_enable_disable manualOff_onTemplate
        manualOff_advance manualOff_pollTick manualOff_commands deactivated_def vueDestroy_def
        callHook_def componentHooks_def)

lemma manualOff_run: "manualOff s \<Longrightarrow> manualOff (run cfg s xs)"
  unfolding run_def by (induction xs arbitrary: s) (simp_all add: manualOff_step)

lemma manualOff_created: "manualOff (created cfg e (initData cfg))"
  by (simp add: manualOff_def created_def) (simp add: initData_def)

lemma manual_never_active: "\<not> at_manual (activeTrigger (run cfg (created cfg e (initData cfg)) xs))"
  using manualOff_run[OF manualOff_created] by (simp add: manualOff_def)

subsection \<open>A leave intent on an open overlay closes it\<close>

lemma hide_open:
  assumes "getTemplateElement s" "localShow s" "\<not> hidePrevented e"
  shows "closing (hide cfg e False s)" "\<not> isWithActiveTrigger (hide cfg e False s)"
  using assms
  by (auto simp: hide_def Let_def defaultPrevented_def emitEvent_def hideTemplate_def
        clearActiveTriggers_def closing_def getTemplateElement_def isWithActiveTrigger_def
        split: option.splits)

lemma hide_keeps_inactive: "\<not> isWithActiveTrigger s \<Longrightarrow> \<not> isWithActiveTrigger (hide cfg e f s)"
  by (simp add: hide_def Let_def emitEvent_def hideTemplate_def clearActiveTriggers_def
        isWithActiveTrigger_def split: option.splits)

lemma runTimeoutCb_closing: "closing s \<Longrightarrow> runTimeoutCb cfg e cb s = Inr s"
  by (cases cb) (simp_all add: runTimeoutCb_def closing_def)

lemma fireTimeout_closing: "closing s \<Longrightarrow> closing (fireTimeout cfg e x s)"
proof -
  assume c: "closing s"
  then have "closing (s\<lparr>timeouts := removeAll x (timeouts s), now := max (now s) (fst (snd x))\<rparr>)"
    by (simp add: closing_def)
  with c show ?thesis by (simp add: fireTimeout_def runTimeoutCb_closing)
qed

lemma runTimeouts_closing: "closing s \<Longrightarrow> closing (runTimeouts cfg e xs s)"
  by (induction xs arbitrary: s) (simp_all add: fireTimeout_closing)

lemma fireTimeout_closingOrDue:
  assumes np: "\<not> hidePrevented e" and cb0: "snd (snd x0) = HideCb" and inv: "closingOrDue x0 s"
  shows "closingOrDue x0 (fireTimeout cfg e x s) \<and> (x = x0 \<longrightarrow> closing (fireTimeout cfg e x s))"
proof (cases "closing s")
  case True
  then have "closing (fireTimeout cfg e x s)" by (rule fireTimeout_closing)
  then show ?thesis by (auto simp: closingOrDue_def)
next
  case False
  with inv have st: "hoverState s = HoverOut" "getTemplateElement s" "localShow s" "x0 \<in> set (timeouts s)"
    by (auto simp: closingOrDue_def)
  show ?thesis
  proof (cases "x \<in> set (timeouts s)")
    case notin: False
    with st inv show ?thesis by (auto simp: fireTimeout_def)
  next
    case True
    let ?pre = "s\<lparr>timeouts := removeAll x (timeouts s), now := max (now s) (fst (snd x))\<rparr>"
    have pre: "hoverState ?pre = HoverOut" "getTemplateElement ?pre" "localShow ?pre"
      using st by (simp_all add: getTemplateElement_def)
    show ?thesis
    proof (cases "snd (snd x)")
      case ShowCb
      with cb0 have ne: "x \<noteq> x0" by auto
      have "fireTimeout cfg e x s = ?pre"
        using True ShowCb pre by (simp add: fireTimeout_def runTimeoutCb_def)
      with ne st pre show ?thesis by (auto simp: closingOrDue_def)
    next
      case HideCb
      have "fireTimeout cfg e x s = hide cfg e False ?pre"
        using True HideCb pre by (simp add: fireTimeout_def runTimeoutCb_def)
      moreover have "closing (hide cfg e False ?pre)" using pre np by (intro hide_open)
      ultimately show ?thesis by (auto simp: closingOrDue_def)
    qed
  qed
qed

lemma runTimeouts_closingOrDue:
  assumes np: "\<not> hidePrevented e" and cb0: "snd (snd x0) = HideCb"
  shows "closingOrDue x0 s \<Longrightarrow>
         closingOrDue x0 (runTimeouts cfg e xs s) \<and> (x0 \<in> set xs \<longrightarrow> closing (runTimeouts cfg e xs s))"
proof (induction xs arbitrary: s)
  case Nil
  then show ?case by simp
next
  case (Cons x xs)
  from fireTimeout_closingOrDue[OF np cb0 Cons.prems, of cfg x]
  have f: "closingOrDue x0 (fireTimeout cfg e x s)"
    and g: "x = x0 \<longrightarrow> closing (fireTimeout cfg e x s)" by simp_all
  from Cons.IH[OF f] g show ?case
    by (auto simp: runTimeouts_closing)
qed

lemma advance_closes:
  assumes np: "\<not> hidePrevented e" and cb0: "snd (snd x0) = HideCb"
      and due: "x0 \<in> set (timeouts s)" "fst (snd x0) \<le> t"
      and st: "hoverState s = HoverOut" "getTemplateElement s" "localShow s"
  shows "closing (advance cfg e t s)"
proof -
  have inv: "closingOrDue x0 s" using due st by (simp add: closingOrDue_def)
  have "x0 \<in> set (dueTimeouts t s)" using due by (simp add: dueTimeouts_def)
  with runTimeouts_closingOrDue[OF np cb0 inv, of cfg "dueTimeouts t s"]
  have "closing (runTimeouts cfg e (dueTimeouts t s) s)" by simp
  then show ?thesis by (simp add: advance_def Let_def closing_def)
qed

lemma handleEvent_focusout_blur:
  assumes blur: "''blur'' \<in> set (computedTriggers (triggers cfg))"
      and ty: "ev_type ev = ''focusout''"
      and resp: "hostResponsive cfg e" and en: "enabled s"
      and out: "\<not> focusStaysWithin ev s"
  shows "handleEvent cfg e ev s = Inr (leave cfg e (Some ev) s)"
proof -
  from resp obtain tg where tg: "getTarget cfg e = Some tg" "\<not> elDisabled e tg" "\<not> dropdownOpen cfg e"
    by (auto simp: hostResponsive_def split: option.splits)
  show ?thesis using tg en out ty blur by (simp add: handleEvent_def Let_def)
qed

lemma leave_focusout_blur:
  assumes blur: "''blur'' \<in> set (computedTriggers (triggers cfg))"
      and ty: "ev_type ev = ''focusout''"
      and nm: "\<not> at_manual (activeTrigger s)"
  defines "s2 \<equiv> s\<lparr>activeTrigger := \<lparr>at_hover = False, at_click = False, at_focus = False, at_manual = False\<rparr>,
                   timeouts := timeouts (clearTimeout (hoverTimeout s) s),
                   intervals := intervals (clearTimeout (hoverTimeout s) s),
                   hoverState := HoverOut\<rparr>"
  shows "leave cfg e (Some ev) s =
           (if delay_hide (computedDelay (delay cfg)) = 0 then hide cfg e False s2
            else (setTimeout HideCb (delay_hide (computedDelay (delay cfg))) s2)
                   \<lparr>ds_hoverTimeout := Some (nextHandle s)\<rparr>)"
proof -
  have a: "(activeTrigger s)\<lparr>at_focus := False, at_click := False, at_hover := False\<rparr>
             = \<lparr>at_hover = False, at_click = False, at_focus = False, at_manual = False\<rparr>"
    using nm by (cases "activeTrigger s") simp
  show ?thesis
    using nm blur ty
    by (cases "hoverTimeout s")
       (simp_all add: leave_def Let_def setActive_def isWithActiveTrigger_def clearTimeout_def s2_def a)
qed

subsection \<open>A pending show and the leave that cancels it\<close>

lemma created_idle: "idleClosed (created cfg e (initData cfg)) \<and> now (created cfg e (initData cfg)) = 0"
  by (simp add: created_def idleClosed_def isWithActiveTrigger_def) (simp add: initData_def)

lemma triggers_hover_focus: "computedTriggers (TrigStr ''hover focus'') = [''hover'', ''focus'']"
  by code_simp

lemma delay_100_50:
  "computedDelay (JObj [(''show'', JNum 100), (''hide'', JNum 50)]) = \<lparr>delay_show = 100, delay_hide = 50\<rparr>"
  by (simp add: computedDelay_def)

lemma enter_step:
  assumes trig: "triggers cfg = TrigStr ''hover focus''"
      and del: "delay cfg = JObj [(''show'', JNum 100), (''hide'', JNum 50)]"
      and ty: "ev_type ev = ''mouseenter''"
      and idle: "idleClosed s" and now0: "now s = 0"
  shows "idleClosed (step cfg s (e, Dom ev)) \<or> showPending 100 (step cfg s (e, Dom ev))"
  using idle now0 ty
  by (auto simp: step_def handleEvent_def enter_def setActive_def clearTimeout_def setTimeout_def
        Let_def idleClosed_def showPending_def isWithActiveTrigger_def trig del
        triggers_hover_focus delay_100_50 split: option.splits)

lemma advance_before:
  assumes "idleClosed s \<or> showPending 100 s" and "t < 100"
  shows "(idleClosed (advance cfg e t s) \<or> showPending 100 (advance cfg e t s))"
  using assms
  by (auto simp: advance_def dueTimeouts_def Let_def idleClosed_def showPending_def
        isWithActiveTrigger_def)

lemma leave_step:
  assumes trig: "triggers cfg = TrigStr ''hover focus''"
      and del: "delay cfg = JObj [(''show'', JNum 100), (''hide'', JNum 50)]"
      and ty: "ev_type ev = ''mouseleave''"
      and shape: "idleClosed s \<or> showPending 100 s"
      and resp: "hostResponsive cfg e"
  shows "noShowPending (step cfg s (e, Dom ev))"
proof -
  from resp obtain tg where tg: "getTarget cfg e = Some tg" "\<not> elDisabled e tg" "\<not> dropdownOpen cfg e"
    by (auto simp: hostResponsive_def split: option.splits)
  from shape show ?thesis
  proof
    assume "idleClosed s"
    then show ?thesis
      using ty tg
      by (auto simp: step_def handleEvent_def leave_def setActive_def clearTimeout_def setTimeout_def
            Let_def idleClosed_def noShowPending_def isWithActiveTrigger_def trig del hide_def
            getTemplateElement_def pendingCallbacks_def
            triggers_hover_focus delay_100_50)
  next
    assume "showPending 100 s"
    then show ?thesis
      using ty tg
      by (auto simp: step_def handleEvent_def leave_def setActive_def clearTimeout_def setTimeout_def
            Let_def showPending_def noShowPending_def isWithActiveTrigger_def trig del
            pendingCallbacks_def triggers_hover_focus delay_100_50)
  qed
qed

lemma hide_no_tip: "tip s = None \<Longrightarrow> hide cfg e f s = s"
  by (simp add: hide_def getTemplateElement_def)

lemma fireTimeout_noShow: "noShowPending s \<Longrightarrow> noShowPending (fireTimeout cfg e x s)"
proof (cases "x \<in> set (timeouts s)")
  case False
  assume "noShowPending s"
  with False show ?thesis by (simp add: fireTimeout_def)
next
  case True
  assume n: "noShowPending s"
  let ?pre = "s\<lparr>timeouts := removeAll x (timeouts s), now := max (now s) (fst (snd x))\<rparr>"
  from n True have cb: "snd (snd x) = HideCb"
    by (cases "snd (snd x)") (force simp: noShowPending_def pendingCallbacks_def)+
  from n have p: "noShowPending ?pre" by (auto simp: noShowPending_def pendingCallbacks_def)
  then have "tip ?pre = None" by (simp add: noShowPending_def)
  then have "hide cfg e False ?pre = ?pre" by (rule hide_no_tip)
  with True cb p show ?thesis by (simp add: fireTimeout_def runTimeoutCb_def)
qed

lemma runTimeouts_noShow: "noShowPending s \<Longrightarrow> noShowPending (runTimeouts cfg e xs s)"
  by (induction xs arbitrary: s) (simp_all add: fireTimeout_noShow)

lemma advance_noShow: "noShowPending s \<Longrightarrow> noShowPending (advance cfg e t s)"
  using runTimeouts_noShow[of s cfg e "dueTimeouts t s"]
  by (simp add: advance_def Let_def noShowPending_def pendingCallbacks_def)

lemma shape_closed: "idleClosed s \<or> showPending d s \<Longrightarrow> localShow s = False \<and> tip s = None"
  by (auto simp: idleClosed_def showPending_def)

section \<open>The claims\<close>

text \<open>
  C1 (the code departs from the claim). \<open>leave\<close> stores its timer handle in
  \<open>$hoverTimeout\<close>, while \<open>enter\<close> and \<open>leave\<close> cancel the handle in \<open>hoverTimeout\<close>:
  after hover in, out and in again the hide timer of the \<open>leave\<close> and the show timer of
  the second \<open>enter\<close> are both pending.
\<close>

theorem C1_two_delay_timers_pending:
  "timeouts hoverInOutIn = [(2, 60, HideCb), (3, 120, ShowCb)] \<and>
   hoverTimeout hoverInOutIn = Some 3 \<and> ds_hoverTimeout hoverInOutIn = Some 2"
  by code_simp

text \<open>
  C2. With triggers \<open>"hover focus"\<close> and delay \<open>{show: 100, hide: 50}\<close>, after a
  \<open>mouseenter\<close> on the freshly created controller the overlay is not shown at any time
  before 100 ms; a \<open>mouseleave\<close> that the host accepts while the show timer is pending
  removes the show timer, and the overlay is not shown at any later time; and each
  delay-timer callback does nothing unless \<open>hoverState\<close> still has the value its
  scheduler set. The document may answer differently at every step.
\<close>

theorem C2_delayed_show_cancelled_by_leave:
  assumes trig: "triggers cfg = TrigStr ''hover focus''"
      and del: "delay cfg = JObj [(''show'', JNum 100), (''hide'', JNum 50)]"
      and en: "ev_type enterEv = ''mouseenter''" and lv: "ev_type leaveEv = ''mouseleave''"
  shows "(\<forall>t<100.
            localShow (run cfg (created cfg e0 (initData cfg)) [(e1, Dom enterEv), (e2, Elapse t)]) = False \<and>
            tip (run cfg (created cfg e0 (initData cfg)) [(e1, Dom enterEv), (e2, Elapse t)]) = None)
       \<and> (\<forall>t1<100. hostResponsive cfg e3 \<longrightarrow>
            ShowCb \<notin> set (pendingCallbacks
               (run cfg (created cfg e0 (initData cfg))
                    [(e1, Dom enterEv), (e2, Elapse t1), (e3, Dom leaveEv)])) \<and>
            (\<forall>t2.
               localShow (run cfg (created cfg e0 (initData cfg))
                    [(e1, Dom enterEv), (e2, Elapse t1), (e3, Dom leaveEv), (e4, Elapse t2)]) = False \<and>
               tip (run cfg (created cfg e0 (initData cfg))
                    [(e1, Dom enterEv), (e2, Elapse t1), (e3, Dom leaveEv), (e4, Elapse t2)]) = None))
       \<and> (\<forall>s. hoverState s \<noteq> HoverIn \<longrightarrow> runTimeoutCb cfg e ShowCb s = Inr s)
       \<and> (\<forall>s. hoverState s \<noteq> HoverOut \<longrightarrow> runTimeoutCb cfg e HideCb s = Inr s)"
proof -
  let ?s0 = "created cfg e0 (initData cfg)"
  let ?s1 = "step cfg ?s0 (e1, Dom enterEv)"
  have s1: "idleClosed ?s1 \<or> showPending 100 ?s1"
    using trig del en created_idle[of cfg e0] by (intro enter_step) simp_all
  have a: "\<forall>t<100. localShow (run cfg ?s0 [(e1, Dom enterEv), (e2, Elapse t)]) = False \<and>
                    tip (run cfg ?s0 [(e1, Dom enterEv), (e2, Elapse t)]) = None"
  proof (intro allI impI)
    fix t :: nat assume "t < 100"
    with s1 have "idleClosed (advance cfg e2 t ?s1) \<or> showPending 100 (advance cfg e2 t ?s1)"
      by (rule advance_before)
    then have "localShow (advance cfg e2 t ?s1) = False \<and> tip (advance cfg e2 t ?s1) = None"
      by (rule shape_closed)
    then show "localShow (run cfg ?s0 [(e1, Dom enterEv), (e2, Elapse t)]) = False \<and>
               tip (run cfg ?s0 [(e1, Dom enterEv), (e2, Elapse t)]) = None"
      by (simp add: run_def) (simp add: step_def[of cfg _ "(e2, Elapse t)"])
  qed
  have b: "\<forall>t1<100. hostResponsive cfg e3 \<longrightarrow>
            ShowCb \<notin> set (pendingCallbacks (run cfg ?s0 [(e1, Dom enterEv), (e2, Elapse t1), (e3, Dom leaveEv)])) \<and>
            (\<forall>t2.
               localShow (run cfg ?s0 [(e1, Dom enterEv), (e2, Elapse t1), (e3, Dom leaveEv), (e4, Elapse t2)]) = False \<and>
               tip (run cfg ?s0 [(e1, Dom enterEv), (e2, Elapse t1), (e3, Dom leaveEv), (e4, Elapse t2)]) = None)"
  proof (intro allI impI)
    fix t1 :: nat assume t1: "t1 < 100" and resp: "hostResponsive cfg e3"
    let ?s2 = "advance cfg e2 t1 ?s1"
    let ?s3 = "step cfg ?s2 (e3, Dom leaveEv)"
    from s1 t1 have s2: "idleClosed ?s2 \<or> showPending 100 ?s2" by (rule advance_before)
    have s3: "noShowPending ?s3" using trig del lv s2 resp by (rule leave_step)
    have r3: "run cfg ?s0 [(e1, Dom enterEv), (e2, Elapse t1), (e3, Dom leaveEv)] = ?s3"
      by (simp add: run_def) (simp add: step_def[of cfg _ "(e2, Elapse t1)"])
    have r4: "\<And>t2. run cfg ?s0 [(e1, Dom enterEv), (e2, Elapse t1), (e3, Dom leaveEv), (e4, Elapse t2)]
                = advance cfg e4 t2 ?s3"
      by (simp add: run_def) (simp add: step_def[of cfg _ "(e2, Elapse t1)"] step_def[of cfg _ "(e4, Elapse _)"])
    have "\<And>t2. noShowPending (advance cfg e4 t2 ?s3)" using s3 by (rule advance_noShow)
    with s3 show "ShowCb \<notin> set (pendingCallbacks (run cfg ?s0 [(e1, Dom enterEv), (e2, Elapse t1), (e3, Dom leaveEv)])) \<and>
            (\<forall>t2.
               localShow (run cfg ?s0 [(e1, Dom enterEv), (e2, Elapse t1), (e3, Dom leaveEv), (e4, Elapse t2)]) = False \<and>
               tip (run cfg ?s0 [(e1, Dom enterEv), (e2, Elapse t1), (e3, Dom leaveEv), (e4, Elapse t2)]) = None)"
      unfolding r3 r4 by (simp add: noShowPending_def)
  qed
  have c: "\<forall>s. hoverState s \<noteq> HoverIn \<longrightarrow> runTimeoutCb cfg e ShowCb s = Inr s"
    by (simp add: runTimeoutCb_def)
  have d: "\<forall>s. hoverState s \<noteq> HoverOut \<longrightarrow> runTimeoutCb cfg e HideCb s = Inr s"
    by (simp add: runTimeoutCb_def)
  from a b c d show ?thesis by blast
qed

theorem C2_delayed_show_cancelled_by_leave_witness:
  "localShow (run cfg0 (created cfg0 env0 (initData cfg0))
       [(env0, Dom (domEvent ''mouseenter'')), (env0, Elapse 50)]) = False \<and>
   hostResponsive cfg0 env0 \<and>
   localShow (run cfg0 (created cfg0 env0 (initData cfg0))
       [(env0, Dom (domEvent ''mouseenter'')), (env0, Elapse 60),
        (env0, Dom (domEvent ''mouseleave'')), (env0, Elapse 200)]) = False \<and>
   localShow (run cfg0 (created cfg0 env0 (initData cfg0))
       [(env0, Dom (domEvent ''mouseenter'')), (env0, Elapse 100)]) = True"
proof -
  have trig: "triggers cfg0 = TrigStr ''hover focus''" by (simp add: cfg0_def)
  have del: "delay cfg0 = JObj [(''show'', JNum 100), (''hide'', JNum 50)]" by (simp add: cfg0_def)
  have en: "ev_type (domEvent ''mouseenter'') = ''mouseenter''" by (simp add: domEvent_def)
  have lv: "ev_type (domEvent ''mouseleave'') = ''mouseleave''" by (simp add: domEvent_def)
  have resp: "hostResponsive cfg0 env0" by code_simp
  have shown: "localShow (run cfg0 (created cfg0 env0 (initData cfg0))
       [(env0, Dom (domEvent ''mouseenter'')), (env0, Elapse 100)]) = True" by code_simp
  note inst = C2_delayed_show_cancelled_by_leave[OF trig del en lv, of env0 env0 env0 env0 env0 env0]
  from inst have a: "localShow (run cfg0 (created cfg0 env0 (initData cfg0))
       [(env0, Dom (domEvent ''mouseenter'')), (env0, Elapse 50)]) = False" by simp
  from inst resp have b: "localShow (run cfg0 (created cfg0 env0 (initData cfg0))
       [(env0, Dom (domEvent ''mouseenter'')), (env0, Elapse 60),
        (env0, Dom (domEvent ''mouseleave'')), (env0, Elapse 200)]) = False" by simp
  from a resp b shown show ?thesis by blast
qed

text \<open>
  C3 (the code departs from the claim). A default-prevented \<open>show\<close> calls
  \<open>this.destroyTip()\<close>, which does not exist: \<open>show()\<close> throws a TypeError after the
  notification went out. On a controller whose overlay is already open, the instance
  is still there afterwards and \<open>localShow\<close> is still true.
\<close>

theorem C3_cancelled_show_throws:
  "cancelledShow = Inl (TypeError ''this.destroyTip is not a function'', emitEvent ''show'' sCreated) \<and>
   (case cancelledShowWhileOpen of
      Inl (err, s) \<Rightarrow> err = TypeError ''this.destroyTip is not a function'' \<and> tip s \<noteq> None \<and> localShow s
    | Inr s \<Rightarrow> False)"
proof -
  have g: "getTarget cfg0 envPrevent = Some 1" by code_simp
  have d: "\<not> dropdownOpen cfg0 envPrevent" by code_simp
  have v: "bodyContains envPrevent 1 \<and> elVisible envPrevent 1 \<and> showPrevented envPrevent"
    by (simp add: envPrevent_def env0_def)
  have a: "cancelledShow = Inl (TypeError ''this.destroyTip is not a function'', emitEvent ''show'' sCreated)"
    using v by (simp add: cancelledShow_def ctl_show_def g d destroyTip_def defaultPrevented_def isVisible_def)
  have b: "(case cancelledShowWhileOpen of
      Inl (err, s) \<Rightarrow> err = TypeError ''this.destroyTip is not a function'' \<and> tip s \<noteq> None \<and> localShow s
    | Inr s \<Rightarrow> False)"
    by code_simp
  from a b show ?thesis by simp
qed

text \<open>
  C4 (the code departs from the claim). \<open>visibleCheck\<close> stores the interval handle in
  \<open>visibleInterval\<close> and clears the handle in \<open>$_visibleInterval\<close>, which is always
  \<open>null\<close>: the poll started on the template's \<open>show\<close> is still running after force-hide,
  the template's \<open>hide\<close> and \<open>hidden\<close>, and after the teardown body.
\<close>

theorem C4_poll_interval_never_cleared:
  "intervals sOpen = [1] \<and> intervals sClosed = [1] \<and>
   visibleInterval sClosed = Some 1 \<and> us_visibleInterval sClosed = None \<and>
   tip sClosed = None \<and> localShow sClosed = False \<and>
   (case tornDownWhileOpen of Inl (err, s) \<Rightarrow> intervals s = [1] | Inr s \<Rightarrow> False)"
  by code_simp

text \<open>
  C5 (the code departs from the claim). The teardown function is registered under the
  key \<open>beforDestroy\<close>, which the framework never calls: destroying the controller
  changes nothing, so the DOM listeners, the root subscriptions and the pending show
  timer all remain. Called directly, the body removes the listeners, leaves the timer
  (it clears \<open>$_hoverTimeout\<close>, not \<open>hoverTimeout\<close>) and throws at \<open>this.destroyTip()\<close>.
\<close>

theorem C5_destroy_leaves_listeners_and_timers:
  "sDestroyed = sPending \<and>
   timeouts sDestroyed = [(1, 100, ShowCb)] \<and>
   domListeners sDestroyed
     = [(1, ''focusout''), (1, ''focusin''), (1, ''mouseleave''), (1, ''mouseenter'')] \<and>
   rootListeners sDestroyed
     = [''bv::hide::tooltip'', ''bv::show::tooltip'', ''bv::disable::tooltip'', ''bv::enable::tooltip''] \<and>
   (case tornDownPending of
      Inl (err, s) \<Rightarrow> err = TypeError ''this.destroyTip is not a function''
                       \<and> timeouts s = [(1, 100, ShowCb)] \<and> domListeners s = [] \<and> rootListeners s = []
    | Inr s \<Rightarrow> False)"
proof -
  have a: "sDestroyed = sPending"
    by (simp add: sDestroyed_def run_def step_def vueDestroy_noop settle_def)
  have b: "timeouts sPending = [(1, 100, ShowCb)] \<and>
   domListeners sPending
     = [(1, ''focusout''), (1, ''focusin''), (1, ''mouseleave''), (1, ''mouseenter'')] \<and>
   rootListeners sPending
     = [''bv::hide::tooltip'', ''bv::show::tooltip'', ''bv::disable::tooltip'', ''bv::enable::tooltip''] \<and>
   (case tornDownPending of
      Inl (err, s) \<Rightarrow> err = TypeError ''this.destroyTip is not a function''
                       \<and> timeouts s = [(1, 100, ShowCb)] \<and> domListeners s = [] \<and> rootListeners s = []
    | Inr s \<Rightarrow> False)"
    by code_simp
  from a b show ?thesis by simp
qed

text \<open>
  C6 (the code departs from the claim). The delay normaliser passes a number through
  as it is, and a numeric field of a record likewise: a negative number gives a negative
  delay, while the string branch clamps at 0 (\<open>computedDelay_string_nonneg\<close>).
\<close>

theorem C6_negative_number_not_clamped:
  "computedDelay (JNum (- 5)) = \<lparr>delay_show = - 5, delay_hide = - 5\<rparr> \<and>
   computedDelay (JObj [(''show'', JNum (- 3)), (''hide'', JStr ''20'')])
     = \<lparr>delay_show = - 3, delay_hide = 0\<rparr>"
  by (simp add: computedDelay_def)

text \<open>
  C7, as stated, fails: two equal words stay two tokens, and whitespace at an end of the
  joined string leaves an empty token.
\<close>

theorem C7_counterexample:
  "\<not> distinct (computedTriggers (TrigArr [JStr ''click'', JNull, JStr '' Click '']))
   \<and> [] \<in> set (computedTriggers (TrigArr [JStr ''click'', JNull, JStr '' Click '']))"
  by code_simp

text \<open>
  C7, amended. \<open>computedTriggers\<close> keeps the truthy entries, joins them with single
  spaces, lower-cases and splits on runs of whitespace. The joined string of a string
  configuration is its lower-case form; that of an array is the lower-case form of its
  truthy entries joined with single spaces, so falsy entries change nothing and an array
  gives what the joined string gives. The token list is the one and only way to write
  the joined string as tokens separated by non-empty runs of whitespace
  (\<open>splitsOnWhitespace\<close>): no token contains whitespace, every token is in lower case,
  the tokens are the non-whitespace characters in order, and an empty token can stand
  only first or last (there is none when the joined string is non-empty and neither
  starts nor ends with whitespace). Non-empty words without whitespace, joined by single
  spaces or given as an array, come back lower-cased one token each. Tokens are not
  deduplicated.
\<close>

theorem C7_computedTriggers_tokens:
  "(\<forall>tok\<in>set (computedTriggers t). \<forall>x\<in>set tok. \<not> isSpace x) \<and>
   (\<forall>tok\<in>set (computedTriggers t). toLowerCase tok = tok) \<and>
   concat (computedTriggers t) = filter (\<lambda>c. \<not> isSpace c) (triggersJoined t) \<and>
   [] \<notin> set (butlast (tl (computedTriggers t))) \<and>
   (triggersJoined t \<noteq> [] \<and> \<not> isSpace (hd (triggersJoined t)) \<and> \<not> isSpace (last (triggersJoined t))
      \<longrightarrow> [] \<notin> set (computedTriggers t)) \<and>
   (\<forall>toks. splitsOnWhitespace (triggersJoined t) toks = (toks = computedTriggers t)) \<and>
   (\<forall>s. triggersJoined (TrigStr s) = toLowerCase s) \<and>
   (\<forall>vs. triggersJoined (TrigArr vs) = toLowerCase (joinSp (map toString (filter truthy vs)))) \<and>
   (\<forall>vs. computedTriggers (TrigArr vs) = computedTriggers (TrigArr (filter truthy vs))) \<and>
   (\<forall>vs. computedTriggers (TrigArr vs)
           = computedTriggers (TrigStr (joinSp (map toString (filter truthy vs))))) \<and>
   (\<forall>ws. ws \<noteq> [] \<and> (\<forall>w\<in>set ws. w \<noteq> [] \<and> (\<forall>x\<in>set w. \<not> isSpace x)) \<longrightarrow>
      computedTriggers (TrigStr (joinSp ws)) = map toLowerCase ws \<and>
      computedTriggers (TrigArr (map JStr ws)) = map toLowerCase ws)"
proof -
  have a: "\<forall>tok\<in>set (computedTriggers t). \<forall>x\<in>set tok. \<not> isSpace x"
    unfolding computedTriggers_def by (rule splitWs_nospace_all)
  have c: "concat (computedTriggers t) = filter (\<lambda>c. \<not> isSpace c) (triggersJoined t)"
    unfolding computedTriggers_def by (rule splitWs_concat)
  have b: "\<forall>tok\<in>set (computedTriggers t). toLowerCase tok = tok"
  proof
    fix tok assume tok: "tok \<in> set (computedTriggers t)"
    have "set tok \<subseteq> set (concat (computedTriggers t))" using tok by auto
    also have "\<dots> \<subseteq> set (triggersJoined t)" by (simp add: c)
    finally have "\<forall>x\<in>set tok. \<exists>y. x = toLowerChar y"
      by (auto simp: triggersJoined_def toLowerCase_def)
    then have "\<forall>x\<in>set tok. toLowerChar x = x" by (auto simp: toLowerChar_idem)
    then show "toLowerCase tok = tok" by (simp add: toLowerCase_def map_idI)
  qed
  have d: "[] \<notin> set (butlast (tl (computedTriggers t)))"
    unfolding computedTriggers_def by (rule splitWs_interior)
  have e: "triggersJoined t \<noteq> [] \<and> \<not> isSpace (hd (triggersJoined t)) \<and> \<not> isSpace (last (triggersJoined t))
      \<longrightarrow> [] \<notin> set (computedTriggers t)"
    unfolding computedTriggers_def using splitWs_no_empty by blast
  have f: "\<forall>toks. splitsOnWhitespace (triggersJoined t) toks = (toks = computedTriggers t)"
    by (simp add: computedTriggers_def splitsOnWhitespace_iff)
  have g: "\<forall>s. triggersJoined (TrigStr s) = toLowerCase s"
    by (simp add: triggersJoined_string)
  have h: "\<forall>vs. triggersJoined (TrigArr vs) = toLowerCase (joinSp (map toString (filter truthy vs)))"
    by (simp add: triggersJoined_array)
  have i: "\<forall>vs. computedTriggers (TrigArr vs) = computedTriggers (TrigArr (filter truthy vs))"
    by (simp add: computedTriggers_def triggersJoined_array)
  have j: "\<forall>vs. computedTriggers (TrigArr vs)
           = computedTriggers (TrigStr (joinSp (map toString (filter truthy vs))))"
    by (simp add: computedTriggers_def triggersJoined_array triggersJoined_string)
  have k: "\<forall>ws. ws \<noteq> [] \<and> (\<forall>w\<in>set ws. w \<noteq> [] \<and> (\<forall>x\<in>set w. \<not> isSpace x)) \<longrightarrow>
      computedTriggers (TrigStr (joinSp ws)) = map toLowerCase ws \<and>
      computedTriggers (TrigArr (map JStr ws)) = map toLowerCase ws"
    using computedTriggers_words by blast
  show ?thesis by (intro conjI a b c d e f g h i j k)
qed

theorem C7_computedTriggers_tokens_witness:
  "triggersJoined (TrigStr ''Click  HOVER'') = ''click  hover'' \<and>
   [] \<notin> set (computedTriggers (TrigStr ''Click  HOVER'')) \<and>
   concat (computedTriggers (TrigStr ''Click  HOVER'')) = ''clickhover'' \<and>
   splitsOnWhitespace ''click  hover'' [''click'', ''hover''] \<and>
   computedTriggers (TrigStr ''Click  HOVER'') = [''click'', ''hover''] \<and>
   computedTriggers (TrigArr [JStr ''Click'', JStr ''FOCUS'']) = [''click'', ''focus'']"
proof -
  have j: "triggersJoined (TrigStr ''Click  HOVER'') = ''click  hover''" by code_simp
  have h: "triggersJoined (TrigStr ''Click  HOVER'') \<noteq> [] \<and>
           \<not> isSpace (hd (triggersJoined (TrigStr ''Click  HOVER''))) \<and>
           \<not> isSpace (last (triggersJoined (TrigStr ''Click  HOVER'')))"
    by (simp add: j isSpace_def)
  have f: "filter (\<lambda>c. \<not> isSpace c) ''click  hover'' = ''clickhover''" by (simp add: isSpace_def)
  have sp: "splitsOnWhitespace ''click  hover'' [''click'', ''hover'']"
    unfolding splitsOnWhitespace_def
    by (rule exI[of _ "[''  '']"]) (simp add: whitespaceRun_def wordLike_def isSpace_def)
  note inst = C7_computedTriggers_tokens[of "TrigStr ''Click  HOVER''"]
  note r2 = inst[THEN conjunct2, THEN conjunct2]
  note r4 = r2[THEN conjunct2, THEN conjunct2]
  note r5 = r4[THEN conjunct2]
  note r10 = r5[THEN conjunct2, THEN conjunct2, THEN conjunct2, THEN conjunct2, THEN conjunct2]
  from r2[THEN conjunct1] j f
  have cc: "concat (computedTriggers (TrigStr ''Click  HOVER'')) = ''clickhover''" by simp
  from r4[THEN conjunct1] h
  have ne: "[] \<notin> set (computedTriggers (TrigStr ''Click  HOVER''))" by (rule mp)
  from r5[THEN conjunct1] have "splitsOnWhitespace (triggersJoined (TrigStr ''Click  HOVER'')) [''click'', ''hover'']
         = ([''click'', ''hover''] = computedTriggers (TrigStr ''Click  HOVER''))" by (rule spec)
  with sp j have tok: "computedTriggers (TrigStr ''Click  HOVER'') = [''click'', ''hover'']"
    by simp
  have ws: "[''Click'', ''FOCUS''] \<noteq> [] \<and>
            (\<forall>w\<in>set [''Click'', ''FOCUS'']. w \<noteq> [] \<and> (\<forall>x\<in>set w. \<not> isSpace x))"
    by (simp add: isSpace_def)
  have lc: "map toLowerCase [''Click'', ''FOCUS''] = [''click'', ''focus'']" by code_simp
  from r10 have "[''Click'', ''FOCUS''] \<noteq> [] \<and>
            (\<forall>w\<in>set [''Click'', ''FOCUS'']. w \<noteq> [] \<and> (\<forall>x\<in>set w. \<not> isSpace x)) \<longrightarrow>
      computedTriggers (TrigStr (joinSp [''Click'', ''FOCUS''])) = map toLowerCase [''Click'', ''FOCUS''] \<and>
      computedTriggers (TrigArr (map JStr [''Click'', ''FOCUS''])) = map toLowerCase [''Click'', ''FOCUS'']"
    by (rule spec)
  from this ws have "computedTriggers (TrigArr (map JStr [''Click'', ''FOCUS'']))
                       = map toLowerCase [''Click'', ''FOCUS'']" by blast
  with lc have arr: "computedTriggers (TrigArr [JStr ''Click'', JStr ''FOCUS'']) = [''click'', ''focus'']"
    by simp
  show ?thesis by (intro conjI j ne cc sp tok arr)
qed

text \<open>
  C8. In every state the controller can reach, if the triggers include \<open>blur\<close> and an
  accepted \<open>focusout\<close> does not stay within the host or the overlay, the leave handler
  leaves no trigger active (click, hover and focus are cleared, and \<open>manual\<close> is never
  set). With no hide delay an open overlay whose \<open>hide\<close> notification is not prevented
  is told to hide at once; with a hide delay the hide timer is scheduled with
  \<open>hoverState = out\<close>, and once its due time has passed an open overlay has been told to
  hide.
\<close>

theorem C8_blur_focusout_dismisses:
  assumes reach: "s = run cfg (created cfg e0 (initData cfg)) xs"
      and blur: "''blur'' \<in> set (computedTriggers (triggers cfg))"
      and ty: "ev_type ev = ''focusout''"
      and resp: "hostResponsive cfg e" and en: "enabled s"
      and out: "\<not> focusStaysWithin ev s"
  shows "\<exists>s'. handleEvent cfg e ev s = Inr s' \<and>
           \<not> isWithActiveTrigger s' \<and>
           (delay_hide (computedDelay (delay cfg)) = 0 \<and> getTemplateElement s \<and> localShow s
              \<and> \<not> hidePrevented e \<longrightarrow> closing s') \<and>
           (delay_hide (computedDelay (delay cfg)) \<noteq> 0 \<longrightarrow>
              hoverState s' = HoverOut \<and>
              (nextHandle s, now s + nat (delay_hide (computedDelay (delay cfg))), HideCb) \<in> set (timeouts s') \<and>
              (getTemplateElement s \<and> localShow s \<longrightarrow>
                 (\<forall>e' t. \<not> hidePrevented e' \<and> now s + nat (delay_hide (computedDelay (delay cfg))) \<le> t
                    \<longrightarrow> closing (advance cfg e' t s'))))"
proof -
  let ?dh = "delay_hide (computedDelay (delay cfg))"
  let ?s2 = "s\<lparr>activeTrigger := \<lparr>at_hover = False, at_click = False, at_focus = False, at_manual = False\<rparr>,
                   timeouts := timeouts (clearTimeout (hoverTimeout s) s),
                   intervals := intervals (clearTimeout (hoverTimeout s) s),
                   hoverState := HoverOut\<rparr>"
  let ?s' = "leave cfg e (Some ev) s"
  have nm: "\<not> at_manual (activeTrigger s)" unfolding reach by (rule manual_never_active)
  have h: "handleEvent cfg e ev s = Inr ?s'"
    using blur ty resp en out by (rule handleEvent_focusout_blur)
  have l: "?s' = (if ?dh = 0 then hide cfg e False ?s2
                  else (setTimeout HideCb ?dh ?s2)\<lparr>ds_hoverTimeout := Some (nextHandle s)\<rparr>)"
    using blur ty nm by (rule leave_focusout_blur)
  have s2: "\<not> isWithActiveTrigger ?s2" "getTemplateElement ?s2 = getTemplateElement s"
           "localShow ?s2 = localShow s" "hoverState ?s2 = HoverOut"
    by (simp_all add: isWithActiveTrigger_def getTemplateElement_def)
  have a: "\<not> isWithActiveTrigger ?s'"
    using s2(1) hide_keeps_inactive[of ?s2 cfg e False]
    by (simp add: l) (simp add: isWithActiveTrigger_def setTimeout_def)
  have b: "?dh = 0 \<and> getTemplateElement s \<and> localShow s \<and> \<not> hidePrevented e \<longrightarrow> closing ?s'"
    using hide_open(1)[of ?s2 e cfg] s2 by (simp add: l)
  have c: "?dh \<noteq> 0 \<longrightarrow>
              hoverState ?s' = HoverOut \<and>
              (nextHandle s, now s + nat ?dh, HideCb) \<in> set (timeouts ?s') \<and>
              (getTemplateElement s \<and> localShow s \<longrightarrow>
                 (\<forall>e' t. \<not> hidePrevented e' \<and> now s + nat ?dh \<le> t \<longrightarrow> closing (advance cfg e' t ?s')))"
  proof
    assume d: "?dh \<noteq> 0"
    then have eq: "?s' = (setTimeout HideCb ?dh ?s2)\<lparr>ds_hoverTimeout := Some (nextHandle s)\<rparr>"
      by (simp add: l)
    have hs: "hoverState ?s' = HoverOut" by (simp add: eq setTimeout_def)
    have tm: "(nextHandle s, now s + nat ?dh, HideCb) \<in> set (timeouts ?s')"
      by (simp add: eq setTimeout_def)
    have op: "getTemplateElement ?s' = getTemplateElement s" "localShow ?s' = localShow s"
      by (simp_all add: eq setTimeout_def getTemplateElement_def)
    have cl: "getTemplateElement s \<and> localShow s \<longrightarrow>
                 (\<forall>e' t. \<not> hidePrevented e' \<and> now s + nat ?dh \<le> t \<longrightarrow> closing (advance cfg e' t ?s'))"
    proof (intro impI allI)
      fix e' :: env and t :: nat
      assume o: "getTemplateElement s \<and> localShow s"
         and p: "\<not> hidePrevented e' \<and> now s + nat ?dh \<le> t"
      show "closing (advance cfg e' t ?s')"
      proof (rule advance_closes[where ?x0.0 = "(nextHandle s, now s + nat ?dh, HideCb)"])
        show "\<not> hidePrevented e'" using p by simp
        show "snd (snd (nextHandle s, now s + nat ?dh, HideCb)) = HideCb" by simp
        show "(nextHandle s, now s + nat ?dh, HideCb) \<in> set (timeouts ?s')" by (rule tm)
        show "fst (snd (nextHandle s, now s + nat ?dh, HideCb)) \<le> t" using p by simp
        show "hoverState ?s' = HoverOut" by (rule hs)
        show "getTemplateElement ?s'" using o op by simp
        show "localShow ?s'" using o op by simp
      qed
    qed
    from hs tm cl show "hoverState ?s' = HoverOut \<and>
              (nextHandle s, now s + nat ?dh, HideCb) \<in> set (timeouts ?s') \<and>
              (getTemplateElement s \<and> localShow s \<longrightarrow>
                 (\<forall>e' t. \<not> hidePrevented e' \<and> now s + nat ?dh \<le> t \<longrightarrow> closing (advance cfg e' t ?s')))"
      by blast
  qed
  from h a b c show ?thesis by blast
qed

theorem C8_blur_focusout_dismisses_witness:
  "enabled sClickOpen \<and> at_click (activeTrigger sClickOpen) \<and>
   getTemplateElement sClickOpen \<and> localShow sClickOpen \<and>
   closing (stateOf (handleEvent cfgBlur env0 (domEvent ''focusout'') sClickOpen)) \<and>
   \<not> isWithActiveTrigger (stateOf (handleEvent cfgBlur env0 (domEvent ''focusout'') sClickOpen))"
proof -
  have reach: "sClickOpen = run cfgBlur (created cfgBlur env0 (initData cfgBlur))
       [(env0, Dom (domEvent ''click'')), (env0, TemplateShow), (env0, TemplateShown)]"
    by (rule sClickOpen_def)
  have blur: "''blur'' \<in> set (computedTriggers (triggers cfgBlur))" by code_simp
  have ty: "ev_type (domEvent ''focusout'') = ''focusout''" by (simp add: domEvent_def)
  have resp: "hostResponsive cfgBlur env0" by code_simp
  have en: "enabled sClickOpen" by code_simp
  have out: "\<not> focusStaysWithin (domEvent ''focusout'') sClickOpen" by code_simp
  have ck: "at_click (activeTrigger sClickOpen)" by code_simp
  have op: "getTemplateElement sClickOpen \<and> localShow sClickOpen" by code_simp
  have dh: "delay_hide (computedDelay (delay cfgBlur)) = 0" by code_simp
  have np: "\<not> hidePrevented env0" by code_simp
  from C8_blur_focusout_dismisses[OF reach blur ty resp en out]
  obtain s' where s': "handleEvent cfgBlur env0 (domEvent ''focusout'') sClickOpen = Inr s'"
      and ia: "\<not> isWithActiveTrigger s'"
      and cl: "delay_hide (computedDelay (delay cfgBlur)) = 0 \<and> getTemplateElement sClickOpen \<and>
               localShow sClickOpen \<and> \<not> hidePrevented env0 \<longrightarrow> closing s'"
    by blast
  from cl dh op np have "closing s'" by blast
  with s' ia en ck op show ?thesis by simp
qed

text \<open>
  C9, as stated, fails: with the pre-show value \<open>a  b\<close> (two spaces) the value after
  adding and removing the controller's id is \<open>a b\<close>.
\<close>

theorem C9_counterexample:
  "attrs (removeAriaDescribedby cfg0 env0 (addAriaDescribedby cfg0 env0 sTwoIds)) 1 \<noteq> attrs sTwoIds 1"
  by code_simp

text \<open>
  C9, amended. When the host exists and the controller's id is not already among the
  ids of its \<open>aria-describedby\<close>, \<open>addAriaDescribedby\<close> appends exactly that id after the
  ids present, and a following \<open>removeAriaDescribedby\<close> leaves exactly the ids that were
  present before, written in normal form: separated by single spaces, and no attribute
  when there is none. The value is therefore restored exactly when it was absent or was
  already a list of ids separated by single spaces; no other element is touched.
\<close>

theorem C9_aria_roundtrip:
  assumes host: "getTarget cfg e = Some el" "getTarget cfg e' = Some el"
      and ty: "\<forall>x\<in>set (templateType cfg). \<not> isSpace x"
      and fresh: "computedId cfg \<notin> set (describedIds (attrOrEmpty (attrs s el)))"
  shows "splitWs (attrOrEmpty (attrs (addAriaDescribedby cfg e s) el))
           = describedIds (attrOrEmpty (attrs s el)) @ [computedId cfg]
       \<and> attrs (removeAriaDescribedby cfg e' (addAriaDescribedby cfg e s)) el
           = normalisedDesc (attrOrEmpty (attrs s el))
       \<and> (attrs s el = None \<or>
            (\<exists>ids. ids \<noteq> [] \<and> (\<forall>i\<in>set ids. i \<noteq> [] \<and> (\<forall>x\<in>set i. \<not> isSpace x))
                   \<and> attrs s el = Some (joinSp ids))
          \<longrightarrow> attrs (removeAriaDescribedby cfg e' (addAriaDescribedby cfg e s)) el = attrs s el)
       \<and> (\<forall>el'. el' \<noteq> el \<longrightarrow>
            attrs (removeAriaDescribedby cfg e' (addAriaDescribedby cfg e s)) el' = attrs s el')"
proof -
  let ?cid = "computedId cfg"
  let ?d = "attrOrEmpty (attrs s el)"
  let ?added = "addAriaDescribedby cfg e s"
  let ?after = "removeAriaDescribedby cfg e' ?added"
  have cid1: "?cid \<noteq> []" by (rule computedId_nonempty)
  have cid2: "\<forall>x\<in>set ?cid. \<not> isSpace x" using ty by (rule computedId_nospace)
  have added: "attrs ?added = (attrs s)(el := Some (addedDesc ?cid ?d))"
    by (simp add: addAriaDescribedby_def host getAttr_def setAttr_def)
  have one: "splitWs (attrOrEmpty (attrs ?added el)) = describedIds ?d @ [?cid]"
    by (simp add: added addedDesc_ids[OF cid1 cid2])
  have rem: "removedDesc ?cid (addedDesc ?cid ?d) = joinSp (describedIds ?d)"
    using cid1 cid2 fresh by (rule removedDesc_after_added)
  have toks: "\<forall>t\<in>set (describedIds ?d). t \<noteq> []" using describedIds_tokens by blast
  have empty: "(joinSp (describedIds ?d) = []) = (describedIds ?d = [])"
    using toks by (rule joinSp_empty_iff)
  have after: "attrs ?after = (attrs s)(el := normalisedDesc ?d)"
    using empty
    by (auto simp: removeAriaDescribedby_def Let_def host getAttr_def setAttr_def removeAttr_def added
                   rem normalisedDesc_def)
  have two: "attrs ?after el = normalisedDesc ?d" by (simp add: after)
  have three: "attrs s el = None \<or>
            (\<exists>ids. ids \<noteq> [] \<and> (\<forall>i\<in>set ids. i \<noteq> [] \<and> (\<forall>x\<in>set i. \<not> isSpace x))
                   \<and> attrs s el = Some (joinSp ids))
          \<longrightarrow> attrs ?after el = attrs s el"
  proof
    assume "attrs s el = None \<or>
            (\<exists>ids. ids \<noteq> [] \<and> (\<forall>i\<in>set ids. i \<noteq> [] \<and> (\<forall>x\<in>set i. \<not> isSpace x))
                   \<and> attrs s el = Some (joinSp ids))"
    then show "attrs ?after el = attrs s el"
    proof
      assume "attrs s el = None"
      then show ?thesis by (simp add: two normalisedDesc_def)
    next
      assume "\<exists>ids. ids \<noteq> [] \<and> (\<forall>i\<in>set ids. i \<noteq> [] \<and> (\<forall>x\<in>set i. \<not> isSpace x))
                   \<and> attrs s el = Some (joinSp ids)"
      then obtain ids where ids: "ids \<noteq> []" "\<forall>i\<in>set ids. i \<noteq> [] \<and> (\<forall>x\<in>set i. \<not> isSpace x)"
        and v: "attrs s el = Some (joinSp ids)" by blast
      have "describedIds (joinSp ids) = filter (\<lambda>t. t \<noteq> []) ids"
        using ids(2) by (intro describedIds_joinSp) blast
      also have "\<dots> = ids" using ids(2) by (auto simp: filter_id_conv)
      finally have "describedIds ?d = ids" by (simp add: v)
      with ids(1) show ?thesis by (simp add: two normalisedDesc_def v)
    qed
  qed
  have four: "\<forall>el'. el' \<noteq> el \<longrightarrow> attrs ?after el' = attrs s el'" by (simp add: after)
  from one two three four show ?thesis by blast
qed

theorem C9_aria_roundtrip_witness:
  "getTarget cfg0 env0 = Some 1 \<and>
   attrs (addAriaDescribedby cfg0 env0 sTwoIds) 1 = Some ''a b __bv_tooltip_7__'' \<and>
   attrs (removeAriaDescribedby cfg0 env0 (addAriaDescribedby cfg0 env0 sTwoIds)) 1 = Some ''a b'' \<and>
   attrs (removeAriaDescribedby cfg0 env0 (addAriaDescribedby cfg0 env0 sCreated)) 1 = attrs sCreated 1"
proof -
  have host: "getTarget cfg0 env0 = Some 1" by code_simp
  have ty: "\<forall>x\<in>set (templateType cfg0). \<not> isSpace x" by code_simp
  have fresh2: "computedId cfg0 \<notin> set (describedIds (attrOrEmpty (attrs sTwoIds 1)))" by code_simp
  have fresh0: "computedId cfg0 \<notin> set (describedIds (attrOrEmpty (attrs sCreated 1)))" by code_simp
  have n: "normalisedDesc (attrOrEmpty (attrs sTwoIds 1)) = Some ''a b''" by code_simp
  have a: "attrs (addAriaDescribedby cfg0 env0 sTwoIds) 1 = Some ''a b __bv_tooltip_7__''" by code_simp
  have z: "attrs sCreated 1 = None" by code_simp
  from C9_aria_roundtrip[OF host host ty fresh2] n
  have r2: "attrs (removeAriaDescribedby cfg0 env0 (addAriaDescribedby cfg0 env0 sTwoIds)) 1 = Some ''a b''"
    by simp
  from C9_aria_roundtrip[OF host host ty fresh0] z
  have r0: "attrs (removeAriaDescribedby cfg0 env0 (addAriaDescribedby cfg0 env0 sCreated)) 1 = attrs sCreated 1"
    by blast
  from host a r2 r0 show ?thesis by blast
qed

text \<open>
  C10. A configured target that, after unwrapping a component reference's \<open>$el\<close>, is not
  a string makes \<open>getTarget\<close> return \<open>null\<close>, and then \<open>show\<close>, \<open>listen\<close> and
  \<open>handleEvent\<close> change nothing; a host that is resolved comes from a string id.
\<close>

theorem C10_non_string_target_ignored:
  "(\<not> isString (elOrSelf (target cfg) JNull) \<longrightarrow>
      getTarget cfg e = None \<and> ctl_show cfg e s = Inr s \<and> listen cfg e s = s
      \<and> handleEvent cfg e ev s = Inr s) \<and>
   (\<forall>el. getTarget cfg e = Some el \<longrightarrow>
      (\<exists>i. elOrSelf (target cfg) JNull = JStr i \<and> getElementById e (stripHash (stripHash i)) = Some el))"
proof -
  have a: "\<not> isString (elOrSelf (target cfg) JNull) \<longrightarrow>
      getTarget cfg e = None \<and> ctl_show cfg e s = Inr s \<and> listen cfg e s = s
      \<and> handleEvent cfg e ev s = Inr s"
  proof
    assume n: "\<not> isString (elOrSelf (target cfg) JNull)"
    have g: "getTarget cfg e = None"
      using n by (cases "elOrSelf (target cfg) JNull") (simp_all add: getTarget_def)
    show "getTarget cfg e = None \<and> ctl_show cfg e s = Inr s \<and> listen cfg e s = s
      \<and> handleEvent cfg e ev s = Inr s"
      by (simp add: g ctl_show_def listen_def handleEvent_def)
  qed
  have b: "\<forall>el. getTarget cfg e = Some el \<longrightarrow>
      (\<exists>i. elOrSelf (target cfg) JNull = JStr i \<and> getElementById e (stripHash (stripHash i)) = Some el)"
    using getTarget_string_only by blast
  from a b show ?thesis by blast
qed

theorem C10_non_string_target_ignored_witness:
  "elOrSelf (target cfgElem) JNull = JElem 1 \<and>
   elOrSelf (target cfgComp) JNull = JElem 1 \<and>
   getTarget cfgComp env0 = None \<and>
   getTarget cfgElem env0 = None \<and>
   ctl_show cfgElem env0 (initData cfgElem) = Inr (initData cfgElem) \<and>
   listen cfgElem env0 (initData cfgElem) = initData cfgElem \<and>
   handleEvent cfgElem env0 (domEvent ''click'') (initData cfgElem) = Inr (initData cfgElem) \<and>
   getTarget cfg0 env0 = Some 1 \<and> elOrSelf (target cfg0) JNull = JStr ''host''"
proof -
  have t: "elOrSelf (target cfgElem) JNull = JElem 1" by code_simp
  then have n: "\<not> isString (elOrSelf (target cfgElem) JNull)" by simp
  have g: "getTarget cfg0 env0 = Some 1" by code_simp
  from C10_non_string_target_ignored[of cfg0 env0] g
  obtain i where i: "elOrSelf (target cfg0) JNull = JStr i"
             and h: "getElementById env0 (stripHash (stripHash i)) = Some 1" by blast
  have h0: "elOrSelf (target cfg0) JNull = JStr ''host''" by code_simp
  have tc: "elOrSelf (target cfgComp) JNull = JElem 1" by code_simp
  then have nc: "\<not> isString (elOrSelf (target cfgComp) JNull)" by simp
  from C10_non_string_target_ignored[of cfgComp env0] nc
  have gc: "getTarget cfgComp env0 = None" by blast
  from C10_non_string_target_ignored[of cfgElem env0 "initData cfgElem" "domEvent ''click''"] n t g h0 tc gc
  show ?thesis by blast
qed

end
